theory Spec2Isabelle
  imports Main "HOL-Library.Sublist"
begin

section \<open>Errors and outcomes\<close>

text \<open>
  Go error values. \<open>Wrap m e\<close> is \<^verbatim>\<open>fmt.Errorf(m + ": %w", e)\<close>, \<open>Msg m\<close> is
  \<^verbatim>\<open>errors.New(m)\<close> or a \<^verbatim>\<open>fmt.Errorf\<close> without arguments, \<open>Msgf m args\<close> a
  \<^verbatim>\<open>fmt.Errorf\<close> with integer arguments. \<open>ErrDone\<close> is \<^verbatim>\<open>swogrp.ErrDone\<close>,
  \<open>ErrNoRows\<close> is \<^verbatim>\<open>pgx.ErrNoRows\<close>, \<open>NumError s\<close> the \<^verbatim>\<open>*strconv.NumError\<close> of
  \<^verbatim>\<open>strconv.Atoi\<close> on \<open>s\<close> (syntax and range errors are not told apart), and
  \<open>External m\<close> any error produced by a database driver, the context or a library.
\<close>

datatype error =
    ErrDone
  | ErrNoRows
  | NumError string
  | External string
  | Msg string
  | Msgf string "int list"
  | Wrap string error

text \<open>\<^verbatim>\<open>errors.Is(err, target)\<close>: walks the chain of wrapped errors.\<close>

fun errors_Is :: "error \<Rightarrow> error \<Rightarrow> bool" where
  "errors_Is (Wrap m e) target = (Wrap m e = target \<or> errors_Is e target)"
| "errors_Is e target = (e = target)"

text \<open>A Go call either returns or panics; a panic unwinds through every caller.\<close>

datatype 'a outcome = Return 'a | Panic error

section \<open>Primary-key coercion: \<^verbatim>\<open>intIDs\<close> and \<^verbatim>\<open>Table.IDs\<close>\<close>

definition is_digit :: "char \<Rightarrow> bool" where
  "is_digit c \<longleftrightarrow> c \<in> set ''0123456789''"

definition digit_val :: "char \<Rightarrow> int" where
  "digit_val c = int (of_char c) - 48"

definition digits_val :: "string \<Rightarrow> int" where
  "digits_val ds = foldl (\<lambda>n ch. n * 10 + digit_val ch) 0 ds"

text \<open>The digits of a decimal literal, after an optional sign.\<close>

fun strip_sign :: "string \<Rightarrow> string" where
  "strip_sign (c # r) = (if c = CHR ''-'' \<or> c = CHR ''+'' then r else c # r)"
| "strip_sign [] = []"

definition int_syntax :: "string \<Rightarrow> bool" where
  "int_syntax s \<longleftrightarrow> strip_sign s \<noteq> [] \<and> list_all is_digit (strip_sign s)"

text \<open>
  \<^verbatim>\<open>strconv.Atoi\<close> of the Go standard library on a 64-bit platform: an optional
  sign, then one or more decimal digits, the value within the range of \<^verbatim>\<open>int\<close>.
\<close>

definition Atoi :: "string \<Rightarrow> error + int" where
  "Atoi s =
     (if \<not> int_syntax s then Inl (NumError s)
      else let n = digits_val (strip_sign s);
               v = (if hd s = CHR ''-'' then - n else n)
           in if v < - (2 ^ 63) \<or> 2 ^ 63 - 1 < v then Inl (NumError s) else Inr v)"

text \<open>
  \<^verbatim>\<open>intIDs\<close>: the loop appends each parsed id and panics at the first id that
  \<^verbatim>\<open>strconv.Atoi\<close> rejects.
\<close>

fun intIDs_loop :: "int list \<Rightarrow> string list \<Rightarrow> int list outcome" where
  "intIDs_loop ints [] = Return ints"
| "intIDs_loop ints (s # ids) =
     (case Atoi s of
        Inl err \<Rightarrow> Panic err
      | Inr i \<Rightarrow> intIDs_loop (ints @ [i]) ids)"

definition intIDs :: "string list \<Rightarrow> int list outcome" where
  "intIDs ids = intIDs_loop [] ids"

text \<open>
  Query parameters. \<open>IntArray\<close>, \<open>UUIDArray\<close> and \<open>StringArray\<close> are the array types
  of \<^verbatim>\<open>sqlutil\<close>; \<open>JSONArray\<close> is the result of \<^verbatim>\<open>json.Marshal\<close> on a slice of
  \<^verbatim>\<open>json.RawMessage\<close>, kept as the list of its elements.
\<close>

datatype arg =
    IntArray "int list"
  | UUIDArray "string list"
  | StringArray "string list"
  | JSONArray "string list"

text \<open>
  The table descriptor. Its declaration is not part of \<^verbatim>\<open>execute.go\<close>; the fields are
  the ones \<^verbatim>\<open>execute.go\<close> reads: the name, the type of the id column, the results of
  \<^verbatim>\<open>QuotedName()\<close> and \<^verbatim>\<open>SkipSync()\<close>, and the four canned statements.
\<close>

record Table =
  Name :: string
  IDColType :: string
  QuotedName :: string
  SkipSync :: bool
  SelectRowsQuery :: string
  InsertRowsQuery :: string
  UpdateRowsQuery :: string
  DeleteRowsQuery :: string

definition Table_IDs :: "Table \<Rightarrow> string list \<Rightarrow> arg outcome" where
  "Table_IDs t ids =
     (if IDColType t = ''integer'' \<or> IDColType t = ''bigint'' then
        (case intIDs ids of
           Panic err \<Rightarrow> Panic err
         | Return ints \<Rightarrow> Return (IntArray ints))
      else if IDColType t = ''uuid'' then Return (UUIDArray ids)
      else Return (StringArray ids))"

section \<open>Pause coordination in \<^verbatim>\<open>Manager.DoExecute\<close>\<close>

record Task =
  TaskName :: string

record Node =
  Tasks :: "Task list"

record Status =
  Nodes :: "Node list"

text \<open>The two nested loops over nodes and tasks, counting into \<open>(pausing, waiting)\<close>.\<close>

definition count_task :: "nat \<times> nat \<Rightarrow> Task \<Rightarrow> nat \<times> nat" where
  "count_task c task =
     (let pausing = (if TaskName task = ''pause'' then fst c + 1 else fst c);
          waiting = (if TaskName task = ''resume-after'' then snd c + 1 else snd c)
      in (pausing, waiting))"

definition count_node :: "nat \<times> nat \<Rightarrow> Node \<Rightarrow> nat \<times> nat" where
  "count_node c node = foldl count_task c (Tasks node)"

definition count_tasks :: "Status \<Rightarrow> nat \<times> nat" where
  "count_tasks s = foldl count_node (0, 0) (Nodes s)"

text \<open>One tick of the polling loop: leave the loop, return the error, or wait for the next tick.\<close>

datatype poll = Proceed | Abort error | Again

definition poll_status :: "Status \<Rightarrow> poll" where
  "poll_status s =
     (let (pausing, waiting) = count_tasks s
      in if pausing = 0 \<and> waiting = length (Nodes s) then Proceed
         else if waiting = 0 then Abort (Msg ''pause failed'')
         else Again)"

text \<open>
  The loop \<^verbatim>\<open>for range t.C\<close>. \<open>grp k\<close> is what \<^verbatim>\<open>m.grp.Status()\<close> returns at tick \<open>k\<close>,
  \<open>ctx k\<close> whether the context is cancelled at tick \<open>k\<close>. The loop body never reads the
  context. The result is \<open>None\<close> when the loop never ends, \<open>Some None\<close> when it is
  left by \<^verbatim>\<open>break\<close>, \<open>Some (Some e)\<close> when \<^verbatim>\<open>DoExecute\<close> returns \<open>e\<close> from inside it.
\<close>

partial_function (option) pause_wait ::
  "(nat \<Rightarrow> bool) \<Rightarrow> (nat \<Rightarrow> Status) \<Rightarrow> nat \<Rightarrow> error option option" where
  "pause_wait ctx grp k =
     (case poll_status (grp k) of
        Proceed \<Rightarrow> Some None
      | Abort e \<Rightarrow> Some (Some e)
      | Again \<Rightarrow> pause_wait ctx grp (k + 1))"

section \<open>The databases as an environment\<close>

text \<open>
  The two databases, the context and the JSON encoder are outside the program. Every
  call to them is recorded as an event, and what a call returns is given by the
  environment as a function of the events so far, so that the environment may answer the
  same statement differently at different times.
\<close>

datatype db = Src | Dst

datatype txopts = ReadOnlySerializableDeferrable | DefaultOptions

text \<open>
  What \<^verbatim>\<open>srcTx.Query\<close> gives \<^verbatim>\<open>fetch\<close>: an error, or the rows \<open>(id, data)\<close> that
  \<^verbatim>\<open>rows.Next()\<close> and \<^verbatim>\<open>rows.Scan\<close> deliver, optionally ended by a failing \<^verbatim>\<open>Scan\<close>.
\<close>

datatype qres = QErr error | QRows "(string \<times> string) list" "error option"

datatype event =
    BeginTx db txopts "error option"
  | CommitTx db "error option"
  | RollbackTx db
  | Exec db string "arg list" "error + int"
  | ReadChangeLog string "error + (int \<times> string \<times> string) list"
  | Query string arg qres
  | ReadSequenceNames "error + string list"
  | AdvisoryLock "error option"
  | ReadState "error + string"
  | SendBatch db "string list"
  | ReadSequence string "error + (int \<times> bool)"
  | CloseBatch db "error option"
  | SetSequences "(string \<times> int \<times> bool) list" "error option"
  | Log error

record env =
  ctx_Err :: "event list \<Rightarrow> error option"
  begin_tx :: "event list \<Rightarrow> db \<Rightarrow> txopts \<Rightarrow> error option"
  commit_tx :: "event list \<Rightarrow> db \<Rightarrow> error option"
  exec :: "event list \<Rightarrow> db \<Rightarrow> string \<Rightarrow> arg list \<Rightarrow> error + int"
  change_log :: "event list \<Rightarrow> error + (int \<times> string \<times> string) list"
  select_rows :: "event list \<Rightarrow> string \<Rightarrow> arg \<Rightarrow> qres"
  json_valid :: "string \<Rightarrow> bool"
  sequence_names :: "event list \<Rightarrow> error + string list"
  advisory_lock :: "event list \<Rightarrow> error option"
  switchover_state :: "event list \<Rightarrow> error + string"
  sequence_value :: "event list \<Rightarrow> string \<Rightarrow> error + (int \<times> bool)"
  close_batch :: "event list \<Rightarrow> db \<Rightarrow> error option"
  set_sequences :: "event list \<Rightarrow> (string \<times> int \<times> bool) list \<Rightarrow> error option"
  QuoteID :: "string \<Rightarrow> string"

section \<open>The row tracker\<close>

text \<open>
  Modelled from the spec: the type \<^verbatim>\<open>rowTracker\<close> and its methods \<^verbatim>\<open>Exists\<close>,
  \<^verbatim>\<open>Insert\<close>, \<^verbatim>\<open>Delete\<close>, \<^verbatim>\<open>Commit\<close> and \<^verbatim>\<open>Rollback\<close> are declared outside
  \<^verbatim>\<open>execute.go\<close>. The tracker is a set of primary keys per table (here a set of pairs
  of table name and key) that reflects the destination, plus a pending delta of
  additions and removals. \<^verbatim>\<open>Exists\<close> answers from the base set, \<^verbatim>\<open>Insert\<close> and
  \<^verbatim>\<open>Delete\<close> stage into the delta, \<^verbatim>\<open>Commit\<close> folds the delta into the base set
  and \<^verbatim>\<open>Rollback\<close> discards it.
\<close>

record rowTracker =
  tables :: "Table list"
  rowIDs :: "(string \<times> string) set"
  stagedInserts :: "(string \<times> string) list"
  stagedDeletes :: "(string \<times> string) list"

definition rt_Exists :: "rowTracker \<Rightarrow> string \<Rightarrow> string \<Rightarrow> bool" where
  "rt_Exists r tbl rid \<longleftrightarrow> (tbl, rid) \<in> rowIDs r"

definition rt_Insert :: "rowTracker \<Rightarrow> string \<Rightarrow> string \<Rightarrow> rowTracker" where
  "rt_Insert r tbl rid = r\<lparr>stagedInserts := stagedInserts r @ [(tbl, rid)]\<rparr>"

definition rt_Delete :: "rowTracker \<Rightarrow> string \<Rightarrow> string \<Rightarrow> rowTracker" where
  "rt_Delete r tbl rid = r\<lparr>stagedDeletes := stagedDeletes r @ [(tbl, rid)]\<rparr>"

definition rt_Commit :: "rowTracker \<Rightarrow> rowTracker" where
  "rt_Commit r =
     r\<lparr>rowIDs := (rowIDs r - set (stagedDeletes r)) \<union> set (stagedInserts r),
       stagedInserts := [], stagedDeletes := []\<rparr>"

definition rt_Rollback :: "rowTracker \<Rightarrow> rowTracker" where
  "rt_Rollback r = r\<lparr>stagedInserts := [], stagedDeletes := []\<rparr>"

section \<open>The program state\<close>

record state =
  trace :: "event list"
  rt :: rowTracker

definition emit :: "event \<Rightarrow> state \<Rightarrow> state" where
  "emit e st = st\<lparr>trace := trace st @ [e]\<rparr>"

section \<open>\<^verbatim>\<open>rowTracker.fetch\<close>\<close>

record syncRow =
  row_table :: string
  row_id :: string
  row_data :: string

text \<open>The struct \<^verbatim>\<open>syncData\<close>; its field \<^verbatim>\<open>t\<close> is written once and never read.\<close>

record syncData =
  toInsert :: "syncRow list"
  toUpdate :: "syncRow list"
  toDelete :: "string list"

text \<open>The loop over \<^verbatim>\<open>rows.Next()\<close>: one returned row.\<close>

definition fetch_row ::
  "string \<Rightarrow> syncData \<times> string set \<times> rowTracker \<Rightarrow> string \<times> string
     \<Rightarrow> syncData \<times> string set \<times> rowTracker" where
  "fetch_row tbl acc row =
     (case acc of (sd, existsInOld, r) \<Rightarrow>
        (case row of (rid, dat) \<Rightarrow>
           if rt_Exists r tbl rid
           then (sd\<lparr>toUpdate := toUpdate sd @ [\<lparr>row_table = tbl, row_id = rid, row_data = dat\<rparr>]\<rparr>,
                 insert rid existsInOld, r)
           else (sd\<lparr>toInsert := toInsert sd @ [\<lparr>row_table = tbl, row_id = rid, row_data = dat\<rparr>]\<rparr>,
                 insert rid existsInOld, rt_Insert r tbl rid)))"

text \<open>The loop over \<^verbatim>\<open>ids\<close>: one pending id.\<close>

definition fetch_id ::
  "string \<Rightarrow> string set \<Rightarrow> syncData \<times> rowTracker \<Rightarrow> string \<Rightarrow> syncData \<times> rowTracker" where
  "fetch_id tbl existsInOld acc rid =
     (case acc of (sd, r) \<Rightarrow>
        if rid \<in> existsInOld then (sd, r)
        else if \<not> rt_Exists r tbl rid then (sd, r)
        else (sd\<lparr>toDelete := toDelete sd @ [rid]\<rparr>, rt_Delete r tbl rid))"

definition rt_fetch ::
  "env \<Rightarrow> Table \<Rightarrow> string list \<Rightarrow> state \<Rightarrow> (error + syncData) outcome \<times> state" where
  "rt_fetch e table ids st =
     (case Table_IDs table ids of
        Panic err \<Rightarrow> (Panic err, st)
      | Return a \<Rightarrow>
          (let res = select_rows e (trace st) (SelectRowsQuery table) a;
               st1 = emit (Query (SelectRowsQuery table) a res) st
           in case res of
                QErr err \<Rightarrow>
                  if errors_Is err ErrNoRows
                  then (Return (Inr \<lparr>toInsert = [], toUpdate = [], toDelete = ids\<rparr>), st1)
                  else (Return (Inl (Wrap ''fetch rows'' err)), st1)
              | QRows rows scan_err \<Rightarrow>
                  (case foldl (fetch_row (Name table))
                          (\<lparr>toInsert = [], toUpdate = [], toDelete = []\<rparr>, {}, rt st1) rows of
                     (sd, existsInOld, r) \<Rightarrow>
                       (case scan_err of
                          Some err \<Rightarrow> (Return (Inl (Wrap ''scan row'' err)), st1\<lparr>rt := r\<rparr>)
                        | None \<Rightarrow>
                            (case foldl (fetch_id (Name table) existsInOld) (sd, r) ids of
                               (sd', r') \<Rightarrow> (Return (Inr sd'), st1\<lparr>rt := r'\<rparr>))))))"

section \<open>\<^verbatim>\<open>rowTracker.apply\<close>\<close>

text \<open>
  \<^verbatim>\<open>json.Marshal\<close> on the raw messages of a batch fails when one of them is not valid
  JSON.
\<close>

definition json_Marshal :: "env \<Rightarrow> string list \<Rightarrow> error + arg" where
  "json_Marshal e rowsData =
     (if list_all (json_valid e) rowsData then Inr (JSONArray rowsData)
      else Inl (External ''json: error calling MarshalJSON''))"

definition rt_apply :: "env \<Rightarrow> string \<Rightarrow> syncRow list \<Rightarrow> state \<Rightarrow> error option \<times> state" where
  "rt_apply e q rows st =
     (if length rows = 0 then (None, st)
      else
        (case json_Marshal e (map row_data rows) of
           Inl err \<Rightarrow> (Some (Wrap ''marshal rows'' err), st)
         | Inr dat \<Rightarrow>
             (let res = exec e (trace st) Dst q [dat];
                  st1 = emit (Exec Dst q [dat] res) st
              in case res of
                   Inl err \<Rightarrow> (Some (Wrap ''exec'' err), st1)
                 | Inr affected \<Rightarrow>
                     if affected \<noteq> int (length rows)
                     then (Some (Msgf ''mismatch: got %d rows affected; expected %d''
                                   [affected, int (length rows)]), st1)
                     else (None, st1))))"

section \<open>\<^verbatim>\<open>syncChangeLog\<close>\<close>

text \<open>
  The local state of the \<^verbatim>\<open>QueryFunc\<close> callback: the map \<^verbatim>\<open>changes\<close> (used as a
  set), the map \<^verbatim>\<open>rowIDs\<close> from table name to row ids, and the slice \<^verbatim>\<open>changeIDs\<close>.
\<close>

record scan =
  changes :: "(string \<times> string) set"
  scan_rowIDs :: "string \<Rightarrow> string list"
  changeIDs :: "int list"

definition scan_init :: scan where
  "scan_init = \<lparr>changes = {}, scan_rowIDs = (\<lambda>_. []), changeIDs = []\<rparr>"

text \<open>The callback, run once per row \<open>(id, table_name, row_id)\<close> of \<^verbatim>\<open>change_log\<close>.\<close>

definition scan_change :: "scan \<Rightarrow> int \<times> string \<times> string \<Rightarrow> scan" where
  "scan_change sc row =
     (case row of (changeID, tbl, rid) \<Rightarrow>
        if (tbl, rid) \<in> changes sc then sc
        else sc\<lparr>changes := insert (tbl, rid) (changes sc),
                scan_rowIDs := (scan_rowIDs sc)(tbl := scan_rowIDs sc tbl @ [rid]),
                changeIDs := changeIDs sc @ [changeID]\<rparr>)"

text \<open>The text of the statement that reads the change log.\<close>

definition change_log_query :: string where
  "change_log_query = ''select id, table_name, row_id from change_log''"

record pendingDelete =
  pd_query :: string
  pd_idArg :: arg
  pd_count :: nat

text \<open>
  The loop over \<^verbatim>\<open>rt.tables\<close>: fetch, note the deletes, apply updates, then inserts.
\<close>

fun sync_tables ::
  "env \<Rightarrow> (string \<Rightarrow> string list) \<Rightarrow> Table list \<Rightarrow> pendingDelete list \<Rightarrow> state
     \<Rightarrow> (error + pendingDelete list) outcome \<times> state" where
  "sync_tables e ids [] deletes st = (Return (Inr deletes), st)"
| "sync_tables e ids (table # rest) deletes st =
     (if SkipSync table then sync_tables e ids rest deletes st
      else if length (ids (Name table)) = 0 then sync_tables e ids rest deletes st
      else
        (case rt_fetch e table (ids (Name table)) st of
           (Panic err, st1) \<Rightarrow> (Panic err, st1)
         | (Return (Inl err), st1) \<Rightarrow> (Return (Inl (Wrap ''fetch changed rows'' err)), st1)
         | (Return (Inr sd), st1) \<Rightarrow>
             (case (if length (toDelete sd) > 0
                    then (case Table_IDs table (toDelete sd) of
                            Panic err \<Rightarrow> Panic err
                          | Return a \<Rightarrow>
                              Return (deletes @ [\<lparr>pd_query = DeleteRowsQuery table, pd_idArg = a,
                                                   pd_count = length (toDelete sd)\<rparr>]))
                    else Return deletes) of
                Panic err \<Rightarrow> (Panic err, st1)
              | Return deletes' \<Rightarrow>
                  (case rt_apply e (UpdateRowsQuery table) (toUpdate sd) st1 of
                     (Some err, st2) \<Rightarrow> (Return (Inl (Wrap ''apply updates'' err)), st2)
                   | (None, st2) \<Rightarrow>
                       (case rt_apply e (InsertRowsQuery table) (toInsert sd) st2 of
                          (Some err, st3) \<Rightarrow> (Return (Inl (Wrap ''apply inserts'' err)), st3)
                        | (None, st3) \<Rightarrow> sync_tables e ids rest deletes' st3)))))"

text \<open>
  The loop over the pending deletes; \<^verbatim>\<open>syncChangeLog\<close> runs it on the reversed list.
\<close>

fun run_deletes :: "env \<Rightarrow> pendingDelete list \<Rightarrow> state \<Rightarrow> error option \<times> state" where
  "run_deletes e [] st = (None, st)"
| "run_deletes e (d # ds) st =
     (let res = exec e (trace st) Dst (pd_query d) [pd_idArg d];
          st1 = emit (Exec Dst (pd_query d) [pd_idArg d] res) st
      in case res of
           Inl err \<Rightarrow> (Some (Wrap ''delete rows'' err), st1)
         | Inr affected \<Rightarrow>
             if affected \<noteq> int (pd_count d)
             then (Some (Msgf ''delete rows: got %d != expected %d''
                           [affected, int (pd_count d)]), st1)
             else run_deletes e ds st1)"

definition syncChangeLog :: "env \<Rightarrow> state \<Rightarrow> (int list \<times> error option) outcome \<times> state" where
  "syncChangeLog e st =
     (let res = change_log e (trace st);
          st1 = emit (ReadChangeLog change_log_query res) st
      in case res of
           Inl err \<Rightarrow> (Return ([], Some (Wrap ''fetch changes'' err)), st1)
         | Inr rows \<Rightarrow>
             (let sc = foldl scan_change scan_init rows
              in if changes sc = {} then (Return ([], None), st1)
                 else
                   (let r = exec e (trace st1) Dst ''SET CONSTRAINTS ALL DEFERRED'' [];
                        st2 = emit (Exec Dst ''SET CONSTRAINTS ALL DEFERRED'' [] r) st1
                    in case r of
                         Inl err \<Rightarrow> (Return (changeIDs sc, Some (Wrap ''defer constraints'' err)), st2)
                       | Inr _ \<Rightarrow>
                           (case sync_tables e (scan_rowIDs sc) (tables (rt st2)) [] st2 of
                              (Panic err, st3) \<Rightarrow> (Panic err, st3)
                            | (Return (Inl err), st3) \<Rightarrow> (Return (changeIDs sc, Some err), st3)
                            | (Return (Inr deletes), st3) \<Rightarrow>
                                (case run_deletes e (rev deletes) st3 of
                                   (Some err, st4) \<Rightarrow> (Return (changeIDs sc, Some err), st4)
                                 | (None, st4) \<Rightarrow> (Return (changeIDs sc, None), st4))))))"

section \<open>\<^verbatim>\<open>syncTx\<close> and \<^verbatim>\<open>LoopSync\<close>\<close>

definition syncTx :: "env \<Rightarrow> state \<Rightarrow> error option \<times> state" where
  "syncTx e st =
     (let r = begin_tx e (trace st) Src ReadOnlySerializableDeferrable;
          st1 = emit (BeginTx Src ReadOnlySerializableDeferrable r) st
      in case r of
           Some err \<Rightarrow> (Some (Wrap ''begin src'' err), st1)
         | None \<Rightarrow>
             (let r2 = begin_tx e (trace st1) Dst DefaultOptions;
                  st2 = emit (BeginTx Dst DefaultOptions r2) st1
              in case r2 of
                   Some err \<Rightarrow> (Some (Wrap ''begin dst'' err), emit (RollbackTx Src) st2)
                 | None \<Rightarrow> (None, st2)))"

definition delete_change_log_query :: string where
  "delete_change_log_query = ''DELETE FROM change_log WHERE id = any($1)''"

text \<open>
  \<^verbatim>\<open>LoopSync\<close> after the two deferred rollbacks are registered; the result is
  \<open>(ok, pend, err)\<close>.
\<close>

definition LoopSync_tx :: "env \<Rightarrow> state \<Rightarrow> (int \<times> int \<times> error option) outcome \<times> state" where
  "LoopSync_tx e st =
     (case syncChangeLog e st of
        (Panic err, st1) \<Rightarrow> (Panic err, st1)
      | (Return (ids, Some err), st1) \<Rightarrow>
          (Return (0, int (length ids), Some (Wrap ''sync change log'' err)), st1)
      | (Return (ids, None), st1) \<Rightarrow>
          (let r = commit_tx e (trace st1) Src;
               st2 = emit (CommitTx Src r) st1
           in case r of
                Some err \<Rightarrow> (Return (int (length ids), 0, Some (Wrap ''commit src'' err)), st2)
              | None \<Rightarrow>
                  (let r2 = commit_tx e (trace st2) Dst;
                       st3 = emit (CommitTx Dst r2) st2
                   in case r2 of
                        Some err \<Rightarrow> (Return (0, int (length ids), Some (Wrap ''commit dst'' err)), st3)
                      | None \<Rightarrow>
                          (let r3 = exec e (trace st3) Src delete_change_log_query [IntArray ids];
                               st4 = emit (Exec Src delete_change_log_query [IntArray ids] r3) st3
                           in case r3 of
                                Inl err \<Rightarrow>
                                  (Return (int (length ids), 0, Some (Wrap ''update change log'' err)), st4)
                              | Inr _ \<Rightarrow> (Return (int (length ids), 0, None), st4)))))"

text \<open>
  \<^verbatim>\<open>LoopSync\<close>: the deferred calls run last on every path, also on a panic, the one
  registered last (\<^verbatim>\<open>dstTx.Rollback\<close>) first.
\<close>

definition LoopSync :: "env \<Rightarrow> state \<Rightarrow> (int \<times> int \<times> error option) outcome \<times> state" where
  "LoopSync e st =
     (case syncTx e st of
        (Some err, st1) \<Rightarrow> (Return (0, 0, Some (Wrap ''sync tx'' err)), st1)
      | (None, st1) \<Rightarrow>
          (case LoopSync_tx e st1 of
             (r, st2) \<Rightarrow> (r, emit (RollbackTx Src) (emit (RollbackTx Dst) st2))))"

section \<open>The converge loop \<^verbatim>\<open>SyncChanges\<close>\<close>

text \<open>
  One iteration of the loop body: \<open>Inl\<close> is a \<^verbatim>\<open>return\<close> (or a panic), \<open>Inr\<close> a
  \<^verbatim>\<open>continue\<close>. Progress lines are not modelled.
\<close>

definition SyncChanges_iter :: "env \<Rightarrow> state \<Rightarrow> (error option outcome \<times> state) + state" where
  "SyncChanges_iter e st =
     (case LoopSync e st of
        (Panic err, st1) \<Rightarrow> Inl (Panic err, st1)
      | (Return (n, pend, Some err), st1) \<Rightarrow>
          (let st2 = emit (Log err) st1;
               st3 = st2\<lparr>rt := rt_Rollback (rt st2)\<rparr>
           in if n > 0
              then Inl (Return (Some (Wrap ''sync failure (commit without record)'' err)), st3)
              else Inr st3)
      | (Return (n, pend, None), st1) \<Rightarrow>
          (let st2 = st1\<lparr>rt := rt_Commit (rt st1)\<rparr>
           in if n \<noteq> 0 then Inr st2 else Inl (Return None, st2)))"

partial_function (option) SyncChanges :: "env \<Rightarrow> state \<Rightarrow> (error option outcome \<times> state) option" where
  "SyncChanges e st =
     (case ctx_Err e (trace st) of
        Some err \<Rightarrow> Some (Return (Some err), st)
      | None \<Rightarrow>
          (case SyncChanges_iter e st of
             Inl r \<Rightarrow> Some r
           | Inr st1 \<Rightarrow> SyncChanges e st1))"

section \<open>\<^verbatim>\<open>EnableTriggers\<close> and \<^verbatim>\<open>FinalSync\<close>\<close>

definition EnableTriggers :: "env \<Rightarrow> Table list \<Rightarrow> state \<Rightarrow> error option \<times> state" where
  "EnableTriggers e tbls st =
     (let st1 = emit (SendBatch Dst
                  (map (\<lambda>table. ''ALTER TABLE '' @ QuotedName table @ '' ENABLE TRIGGER USER'') tbls)) st;
          r = close_batch e (trace st1) Dst
      in (r, emit (CloseBatch Dst r) st1))"

text \<open>The loop that reads one \<open>(last_value, is_called)\<close> per sequence name.\<close>

fun read_sequences ::
  "env \<Rightarrow> string list \<Rightarrow> (string \<times> int \<times> bool) list \<Rightarrow> state
     \<Rightarrow> (error + (string \<times> int \<times> bool) list) \<times> state" where
  "read_sequences e [] setSeq st = (Inr setSeq, st)"
| "read_sequences e (name # names) setSeq st =
     (let r = sequence_value e (trace st) name;
          st1 = emit (ReadSequence name r) st
      in case r of
           Inl err \<Rightarrow> (Inl (Wrap (''get sequence '' @ name) err), st1)
         | Inr (lastv, called) \<Rightarrow> read_sequences e names (setSeq @ [(name, lastv, called)]) st1)"

definition update_state_query :: string where
  "update_state_query =
     ''update switchover_state set current_state = '' @ [CHR 0x27] @ ''use_next_db'' @ [CHR 0x27]
       @ '' where current_state = '' @ [CHR 0x27] @ ''in_progress'' @ [CHR 0x27]"

text \<open>
  \<^verbatim>\<open>FinalSync\<close> after its last \<^verbatim>\<open>syncChangeLog\<close>: the sequences, the commit of the
  destination, the triggers, the state flip and the commit of the source.
\<close>

definition FinalSync_cutover ::
  "env \<Rightarrow> string list \<Rightarrow> string list \<Rightarrow> state \<Rightarrow> error option outcome \<times> state" where
  "FinalSync_cutover e seqNames seqRead st =
     (case read_sequences e seqNames [] (emit (SendBatch Src seqRead) st) of
        (Inl err, st4) \<Rightarrow> (Return (Some err), st4)
      | (Inr setSeq, st4) \<Rightarrow>
     (let c = close_batch e (trace st4) Src;
          st5 = emit (CloseBatch Src c) st4
      in case c of
           Some err \<Rightarrow> (Return (Some (Wrap ''close seq batch'' err)), st5)
         | None \<Rightarrow>
     (let w = set_sequences e (trace st5) setSeq;
          st6 = emit (SetSequences setSeq w) st5
      in case w of
           Some err \<Rightarrow> (Return (Some (Wrap ''set sequences'' err)), st6)
         | None \<Rightarrow>
     (let cd = commit_tx e (trace st6) Dst;
          st7 = emit (CommitTx Dst cd) st6
      in case cd of
           Some err \<Rightarrow> (Return (Some (Wrap ''commit dst'' err)), st7)
         | None \<Rightarrow>
     (case EnableTriggers e (tables (rt st7)) st7 of
        (Some err, st8) \<Rightarrow> (Return (Some (Wrap ''enable triggers'' err)), st8)
      | (None, st8) \<Rightarrow>
     (let u = exec e (trace st8) Src update_state_query [];
          st9 = emit (Exec Src update_state_query [] u) st8
      in case u of
           Inl err \<Rightarrow> (Return (Some (Wrap ''update switchover state'' err)), st9)
         | Inr _ \<Rightarrow>
     (let cs = commit_tx e (trace st9) Src;
          st10 = emit (CommitTx Src cs) st9
      in case cs of
           Some err \<Rightarrow> (Return (Some (Wrap ''commit src'' err)), st10)
         | None \<Rightarrow> (Return None, st10))))))))"

text \<open>
  \<^verbatim>\<open>FinalSync\<close> from \<^verbatim>\<open>stop-the-world\<close> on, with both transactions open and both
  rollbacks deferred: the advisory lock, the switchover state, the last
  \<^verbatim>\<open>syncChangeLog\<close>, then the cutover.
\<close>

definition FinalSync_tx ::
  "env \<Rightarrow> string list \<Rightarrow> string list \<Rightarrow> state \<Rightarrow> error option outcome \<times> state" where
  "FinalSync_tx e seqNames seqRead st =
     (let l = advisory_lock e (trace st);
          st1 = emit (AdvisoryLock l) st
      in case l of
           Some err \<Rightarrow> (Return (Some (Wrap ''lock global switchover'' err)), st1)
         | None \<Rightarrow>
      (let s = switchover_state e (trace st1);
           st2 = emit (ReadState s) st1
       in case s of
            Inl err \<Rightarrow> (Return (Some (Wrap ''get switchover state'' err)), st2)
          | Inr stat \<Rightarrow>
              if stat = ''use_next_db'' then (Return (Some ErrDone), st2)
              else if stat = ''idle'' then (Return (Some (Msg ''not running'')), st2)
              else
                (case syncChangeLog e st2 of
                   (Panic err, st3) \<Rightarrow> (Panic err, st3)
                 | (Return (ids, Some err), st3) \<Rightarrow>
                     (Return (Some (Wrap ''sync change log'' err)), st3)
                 | (Return (ids, None), st3) \<Rightarrow> FinalSync_cutover e seqNames seqRead st3)))"

text \<open>
  \<^verbatim>\<open>FinalSync\<close> after the catch-up \<^verbatim>\<open>SyncChanges\<close>: the two \<^verbatim>\<open>BeginTx\<close> and the
  deferred rollbacks.
\<close>

definition FinalSync_begin ::
  "env \<Rightarrow> string list \<Rightarrow> string list \<Rightarrow> state \<Rightarrow> error option outcome \<times> state" where
  "FinalSync_begin e seqNames seqRead st =
     (let b = begin_tx e (trace st) Src DefaultOptions;
          st1 = emit (BeginTx Src DefaultOptions b) st
      in case b of
           Some err \<Rightarrow> (Return (Some (Wrap ''begin src'' err)), st1)
         | None \<Rightarrow>
             (let b2 = begin_tx e (trace st1) Dst DefaultOptions;
                  st2 = emit (BeginTx Dst DefaultOptions b2) st1
              in case b2 of
                   Some err \<Rightarrow> (Return (Some (Wrap ''begin dst'' err)), emit (RollbackTx Src) st2)
                 | None \<Rightarrow>
                     (case FinalSync_tx e seqNames seqRead st2 of
                        (r, st3) \<Rightarrow> (r, emit (RollbackTx Src) (emit (RollbackTx Dst) st3)))))"

definition FinalSync :: "env \<Rightarrow> state \<Rightarrow> (error option outcome \<times> state) option" where
  "FinalSync e st =
     (let n = sequence_names e (trace st);
          st1 = emit (ReadSequenceNames n) st
      in case n of
           Inl err \<Rightarrow> Some (Return (Some (Wrap ''get sequence names'' err)), st1)
         | Inr names \<Rightarrow>
      (let seqNames = filter (\<lambda>name. name \<noteq> ''change_log_id_seq'') names;
           seqRead = map (\<lambda>name. ''select last_value, is_called from '' @ QuoteID e name) seqNames;
           t1 = exec e (trace st1) Src ''set idle_in_transaction_session_timeout = 1000'' [];
           st2 = emit (Exec Src ''set idle_in_transaction_session_timeout = 1000'' [] t1) st1
       in case t1 of
            Inl err \<Rightarrow> Some (Return (Some (Wrap ''set idle_in_transaction_session_timeout'' err)), st2)
          | Inr _ \<Rightarrow>
      (let t2 = exec e (trace st2) Src ''set lock_timeout = 3000'' [];
           st3 = emit (Exec Src ''set lock_timeout = 3000'' [] t2) st2
       in case t2 of
            Inl err \<Rightarrow> Some (Return (Some (Wrap ''set idle_in_transaction_session_timeout'' err)), st3)
          | Inr _ \<Rightarrow>
      (case SyncChanges e st3 of
         None \<Rightarrow> None
       | Some (Panic err, st4) \<Rightarrow> Some (Panic err, st4)
       | Some (Return (Some err), st4) \<Rightarrow> Some (Return (Some (Wrap ''sync changes'' err)), st4)
       | Some (Return None, st4) \<Rightarrow> Some (FinalSync_begin e seqNames seqRead st4)))))"

section \<open>Vocabulary for the properties\<close>


text \<open>The size of a batch: the number of elements of the array parameter.\<close>

fun arg_len :: "arg \<Rightarrow> nat" where
  "arg_len (IntArray xs) = length xs"
| "arg_len (UUIDArray xs) = length xs"
| "arg_len (StringArray xs) = length xs"
| "arg_len (JSONArray xs) = length xs"

text \<open>The events of \<^verbatim>\<open>syncChangeLog\<close>: reads of the source and statements on the destination.\<close>

fun sync_event :: "event \<Rightarrow> bool" where
  "sync_event (ReadChangeLog q r) = True"
| "sync_event (Query q a r) = True"
| "sync_event (Exec d q args r) = (d = Dst)"
| "sync_event _ = False"

text \<open>
  The step of a drain iteration an event belongs to: opening the source transaction (0)
  and the destination transaction (1), \<^verbatim>\<open>syncChangeLog\<close> (2), the source commit (3), the
  destination commit (4), a statement on the source connection (5), a rollback (6).
\<close>

fun phase :: "event \<Rightarrow> nat" where
  "phase (BeginTx d opts r) = (if d = Src then 0 else 1)"
| "phase (ReadChangeLog q r) = 2"
| "phase (Query q a r) = 2"
| "phase (Exec d q args r) = (if d = Dst then 2 else 5)"
| "phase (CommitTx d r) = (if d = Src then 3 else 4)"
| "phase (RollbackTx d) = 6"
| "phase _ = 7"

text \<open>
  A statement with one array parameter on the destination whose reported number of
  affected rows is not the size of the array.
\<close>

fun mismatch :: "event \<Rightarrow> bool" where
  "mismatch (Exec d q args r) =
     (d = Dst \<and> (case r of Inl _ \<Rightarrow> False
                | Inr m \<Rightarrow> (case args of [a] \<Rightarrow> m \<noteq> int (arg_len a) | _ \<Rightarrow> False)))"
| "mismatch _ = False"

text \<open>The events of \<open>st'\<close> continue those of \<open>st\<close> without a read of the switchover state.\<close>

definition extends :: "state \<Rightarrow> state \<Rightarrow> bool" where
  "extends st st' \<longleftrightarrow>
     (\<exists>evs. trace st' = trace st @ evs \<and> (\<forall>ev\<in>set evs. \<forall>s. ev \<noteq> ReadState s))"

text \<open>A pending delete whose count is the size of its id array.\<close>

definition counted :: "pendingDelete \<Rightarrow> bool" where
  "counted d \<longleftrightarrow> pd_count d = arg_len (pd_idArg d)"

section \<open>Concrete inputs\<close>

text \<open>
  An environment in which nothing fails, the change log is empty, the source returns no
  rows and the destination reports as many affected rows as the batch has elements.
\<close>

definition batch_size :: "arg list \<Rightarrow> int" where
  "batch_size args = (case args of [a] \<Rightarrow> int (arg_len a) | _ \<Rightarrow> 0)"

definition quiet_env :: env where
  "quiet_env =
     \<lparr>ctx_Err = (\<lambda>_. None), begin_tx = (\<lambda>_ _ _. None), commit_tx = (\<lambda>_ _. None),
      exec = (\<lambda>_ _ _ args. Inr (batch_size args)), change_log = (\<lambda>_. Inr []),
      select_rows = (\<lambda>_ _ _. QRows [] None), json_valid = (\<lambda>_. True),
      sequence_names = (\<lambda>_. Inr []), advisory_lock = (\<lambda>_. None),
      switchover_state = (\<lambda>_. Inr ''in_progress''), sequence_value = (\<lambda>_ _. Inr (0, False)),
      close_batch = (\<lambda>_ _. None), set_sequences = (\<lambda>_ _. None), QuoteID = (\<lambda>s. s)\<rparr>"

definition empty_state :: state where
  "empty_state =
     \<lparr>trace = [], rt = \<lparr>tables = [], rowIDs = {}, stagedInserts = [], stagedDeletes = []\<rparr>\<rparr>"

text \<open>Two change-log entries for the same row.\<close>

definition dup_env :: env where
  "dup_env = quiet_env\<lparr>change_log := (\<lambda>_. Inr [(1, ''a'', ''7''), (2, ''a'', ''7'')])\<rparr>"

text \<open>A context that is cancelled from the start, and a cluster that stays half paused.\<close>

definition cancelled_ctx :: "nat \<Rightarrow> bool" where
  "cancelled_ctx k = True"

definition stuck_grp :: "nat \<Rightarrow> Status" where
  "stuck_grp k =
     \<lparr>Nodes = [\<lparr>Tasks = [\<lparr>TaskName = ''pause''\<rparr>, \<lparr>TaskName = ''resume-after''\<rparr>]\<rparr>]\<rparr>"

text \<open>A table with an integer key.\<close>

definition int_table :: Table where
  "int_table =
     \<lparr>Name = ''a'', IDColType = ''integer'', QuotedName = ''a'', SkipSync = False,
      SelectRowsQuery = ''select a'', InsertRowsQuery = ''insert a'',
      UpdateRowsQuery = ''update a'', DeleteRowsQuery = ''delete a''\<rparr>"

text \<open>A table with a text key, and a tracker that knows its row \<open>8\<close>.\<close>

definition text_table :: Table where
  "text_table =
     \<lparr>Name = ''a'', IDColType = ''text'', QuotedName = ''a'', SkipSync = False,
      SelectRowsQuery = ''select a'', InsertRowsQuery = ''insert a'',
      UpdateRowsQuery = ''update a'', DeleteRowsQuery = ''delete a''\<rparr>"

definition tracking_state :: state where
  "tracking_state =
     \<lparr>trace = [],
      rt = \<lparr>tables = [text_table], rowIDs = {(''a'', ''8'')}, stagedInserts = [],
            stagedDeletes = []\<rparr>\<rparr>"


text \<open>A source that returns the change log in an order that is not the order of the ids.\<close>

definition unordered_env :: env where
  "unordered_env = quiet_env\<lparr>change_log := (\<lambda>_. Inr [(2, ''a'', ''7''), (1, ''a'', ''8'')])\<rparr>"

text \<open>
  A drain with one new row in the source, and a destination that reports no affected row.
\<close>

definition one_row_env :: env where
  "one_row_env =
     quiet_env\<lparr>change_log := (\<lambda>_. Inr [(1, ''a'', ''7'')]),
               select_rows := (\<lambda>_ _ _. QRows [(''7'', ''{}'')] None)\<rparr>"

definition short_env :: env where
  "short_env = one_row_env\<lparr>exec := (\<lambda>_ _ _ _. Inr 0)\<rparr>"

text \<open>The same drain with a source whose commit fails.\<close>

definition src_commit_fails_env :: env where
  "src_commit_fails_env =
     one_row_env\<lparr>commit_tx := (\<lambda>_ d. if d = Src then Some (External ''connection lost'') else None)\<rparr>"

text \<open>
  A cutover that finds the switchover already done: one change is still pending in the
  change log until a drain deletes it, and the switchover state reads \<open>use_next_db\<close>.
\<close>

fun deleted_change_log :: "event \<Rightarrow> bool" where
  "deleted_change_log (Exec d q args r) = (d = Src \<and> q = delete_change_log_query)"
| "deleted_change_log _ = False"

definition done_env :: env where
  "done_env =
     one_row_env\<lparr>change_log :=
                   (\<lambda>tr. if list_ex deleted_change_log tr then Inr [] else Inr [(1, ''a'', ''7'')]),
                 switchover_state := (\<lambda>_. Inr ''use_next_db'')\<rparr>"

text \<open>The events of that cutover: the prelude, the two catch-up drains, the critical section.\<close>

definition done_prelude :: "event list" where
  "done_prelude =
     [ReadSequenceNames (Inr []),
      Exec Src ''set idle_in_transaction_session_timeout = 1000'' [] (Inr 0),
      Exec Src ''set lock_timeout = 3000'' [] (Inr 0)]"

definition done_drain1 :: "event list" where
  "done_drain1 =
     [BeginTx Src ReadOnlySerializableDeferrable None,
      BeginTx Dst DefaultOptions None,
      ReadChangeLog change_log_query (Inr [(1, ''a'', ''7'')]),
      Exec Dst ''SET CONSTRAINTS ALL DEFERRED'' [] (Inr 0),
      Query ''select a'' (StringArray [''7'']) (QRows [(''7'', ''{}'')] None),
      Exec Dst ''insert a'' [JSONArray [''{}'']] (Inr 1),
      CommitTx Src None,
      CommitTx Dst None,
      Exec Src delete_change_log_query [IntArray [1]] (Inr 1),
      RollbackTx Dst,
      RollbackTx Src]"

definition done_drain2 :: "event list" where
  "done_drain2 =
     [BeginTx Src ReadOnlySerializableDeferrable None,
      BeginTx Dst DefaultOptions None,
      ReadChangeLog change_log_query (Inr []),
      CommitTx Src None,
      CommitTx Dst None,
      Exec Src delete_change_log_query [IntArray []] (Inr 0),
      RollbackTx Dst,
      RollbackTx Src]"

definition done_critical :: "event list" where
  "done_critical =
     [BeginTx Src DefaultOptions None,
      BeginTx Dst DefaultOptions None,
      AdvisoryLock None,
      ReadState (Inr ''use_next_db''),
      RollbackTx Dst,
      RollbackTx Src]"

definition done_tracker :: rowTracker where
  "done_tracker =
     \<lparr>tables = [text_table], rowIDs = {(''a'', ''7''), (''a'', ''8'')}, stagedInserts = [],
      stagedDeletes = []\<rparr>"

text \<open>A change-log entry whose row id is not a number, for a table with an integer key.\<close>

definition bad_id_env :: env where
  "bad_id_env = quiet_env\<lparr>change_log := (\<lambda>_. Inr [(1, ''a'', ''x'')])\<rparr>"

definition int_state :: state where
  "int_state =
     \<lparr>trace = [], rt = \<lparr>tables = [int_table], rowIDs = {}, stagedInserts = [], stagedDeletes = []\<rparr>\<rparr>"

section \<open>Primary-key coercion\<close>

lemma Atoi_syntax: "\<not> int_syntax s \<Longrightarrow> Atoi s = Inl (NumError s)"
  by (simp add: Atoi_def)

lemma intIDs_loop_Panic:
  "(\<exists>err. intIDs_loop ints ids = Panic err) \<longleftrightarrow> (\<exists>s\<in>set ids. \<exists>err. Atoi s = Inl err)"
proof (induction ids arbitrary: ints)
  case Nil
  show ?case by simp
next
  case (Cons s ids)
  show ?case
  proof (cases "Atoi s")
    case (Inl err)
    then show ?thesis by auto
  next
    case (Inr i)
    then show ?thesis using Cons.IH[of "ints @ [i]"] by auto
  qed
qed

lemma intIDs_loop_length:
  "intIDs_loop ints ids = Return xs \<Longrightarrow> length xs = length ints + length ids"
proof (induction ids arbitrary: ints)
  case Nil
  then show ?case by simp
next
  case (Cons s ids)
  then show ?case by (cases "Atoi s") (auto dest: Cons.IH)
qed

lemma Table_IDs_length: "Table_IDs t ids = Return a \<Longrightarrow> arg_len a = length ids"
  by (auto simp: Table_IDs_def intIDs_def split: if_splits outcome.splits dest: intIDs_loop_length)

lemma Table_IDs_Panic:
  assumes "IDColType t = ''integer'' \<or> IDColType t = ''bigint''"
  shows "(\<exists>err. Table_IDs t ids = Panic err) \<longleftrightarrow> (\<exists>s\<in>set ids. \<exists>err. Atoi s = Inl err)"
proof -
  have "(\<exists>err. Table_IDs t ids = Panic err) \<longleftrightarrow> (\<exists>err. intIDs ids = Panic err)"
    using assms by (auto simp: Table_IDs_def split: outcome.splits)
  then show ?thesis by (simp add: intIDs_def intIDs_loop_Panic)
qed

lemma rt_fetch_Panic: "Table_IDs t ids = Panic err \<Longrightarrow> rt_fetch e t ids st = (Panic err, st)"
  by (simp add: rt_fetch_def)

text \<open>
  Claim C10. For a table whose id column has type \<open>integer\<close> or \<open>bigint\<close>,
  \<^verbatim>\<open>Table.IDs\<close> panics exactly when \<^verbatim>\<open>strconv.Atoi\<close> rejects one of the row ids; in
  particular it panics when a row id is not a decimal integer literal, and then
  \<^verbatim>\<open>fetch\<close>, the first step of the drain iteration on that table, panics too, before
  any statement is sent.
\<close>

theorem Table_IDs_panics_on_non_integer:
  "IDColType t = ''integer'' \<or> IDColType t = ''bigint'' \<Longrightarrow>
     ((\<exists>err. Table_IDs t ids = Panic err) \<longleftrightarrow> (\<exists>s\<in>set ids. \<exists>err. Atoi s = Inl err)) \<and>
     ((\<exists>s\<in>set ids. \<not> int_syntax s) \<longrightarrow>
        (\<exists>err. intIDs ids = Panic err \<and> Table_IDs t ids = Panic err
               \<and> rt_fetch e t ids st = (Panic err, st)))"
proof (intro conjI impI)
  assume t: "IDColType t = ''integer'' \<or> IDColType t = ''bigint''"
  show "(\<exists>err. Table_IDs t ids = Panic err) \<longleftrightarrow> (\<exists>s\<in>set ids. \<exists>err. Atoi s = Inl err)"
    by (rule Table_IDs_Panic[OF t])
  assume "\<exists>s\<in>set ids. \<not> int_syntax s"
  then have "\<exists>s\<in>set ids. \<exists>err. Atoi s = Inl err" using Atoi_syntax by blast
  then obtain err where p: "Table_IDs t ids = Panic err"
    using Table_IDs_Panic[OF t, of ids] by blast
  then have "intIDs ids = Panic err"
    using t by (auto simp: Table_IDs_def split: outcome.splits)
  with p rt_fetch_Panic[OF p]
  show "\<exists>err. intIDs ids = Panic err \<and> Table_IDs t ids = Panic err
          \<and> rt_fetch e t ids st = (Panic err, st)" by blast
qed

theorem Table_IDs_panics_on_non_integer_witness:
  "(IDColType int_table = ''integer'' \<or> IDColType int_table = ''bigint'')
   \<and> (\<exists>s\<in>set [''1'', ''x'']. \<not> int_syntax s)
   \<and> (\<exists>s\<in>set [''1'', ''x'']. \<exists>err. Atoi s = Inl err)
   \<and> (\<exists>err. Table_IDs int_table [''1'', ''x''] = Panic err
          \<and> rt_fetch quiet_env int_table [''1'', ''x''] empty_state = (Panic err, empty_state))"
proof -
  have t: "IDColType int_table = ''integer'' \<or> IDColType int_table = ''bigint''"
    by (simp add: int_table_def)
  have s: "\<exists>s\<in>set [''1'', ''x'']. \<not> int_syntax s"
    by (simp add: int_syntax_def is_digit_def)
  from Table_IDs_panics_on_non_integer[OF t, of "[''1'', ''x'']" quiet_env empty_state] t s
  show ?thesis by blast
qed

section \<open>Pause coordination\<close>







text \<open>If the polling loop ends, some poll did not ask to wait for the next tick.\<close>

lemma pause_wait_returns:
  assumes "pause_wait ctx grp k = Some r"
  shows "\<exists>j. k \<le> j \<and> poll_status (grp j) \<noteq> Again"
proof (rule pause_wait.raw_induct
    [where P = "\<lambda>ctx grp k r. \<exists>j. k \<le> j \<and> poll_status (grp j) \<noteq> Again", OF _ assms])
  fix pw :: "(nat \<Rightarrow> bool) \<Rightarrow> (nat \<Rightarrow> Status) \<Rightarrow> nat \<Rightarrow> error option option"
    and ctx grp k r
  assume IH: "\<And>c g n y. pw c g n = Some y \<Longrightarrow> \<exists>j. n \<le> j \<and> poll_status (g j) \<noteq> Again"
    and step: "(case poll_status (grp k) of Proceed \<Rightarrow> Some None | Abort e \<Rightarrow> Some (Some e)
                | Again \<Rightarrow> pw ctx grp (k + 1)) = Some r"
  show "\<exists>j. k \<le> j \<and> poll_status (grp j) \<noteq> Again"
  proof (cases "poll_status (grp k) = Again")
    case True
    with step have "pw ctx grp (k + 1) = Some r" by simp
    then have "\<exists>j. k + 1 \<le> j \<and> poll_status (grp j) \<noteq> Again" by (rule IH)
    then obtain j where j: "k + 1 \<le> j" "poll_status (grp j) \<noteq> Again" by (elim exE conjE)
    from j(1) have "k \<le> j" by arith
    with j(2) show ?thesis by (intro exI[of _ j] conjI)
  next
    case False
    then show ?thesis by (intro exI[of _ k] conjI) simp_all
  qed
qed

lemma stuck_poll: "poll_status (stuck_grp k) = Again"
  by (simp add: poll_status_def stuck_grp_def count_tasks_def count_node_def count_task_def)

text \<open>
  Claim C8 fails on the code. With the context cancelled from the start and a cluster in
  which one node keeps both a \<open>pause\<close> and a \<open>resume-after\<close> task, the polling loop
  never ends: the loop reads only the cluster status, never the context.
\<close>

theorem pause_wait_ignores_cancellation:
  "cancelled_ctx 0 \<and> pause_wait cancelled_ctx stuck_grp 0 = None"
proof (cases "pause_wait cancelled_ctx stuck_grp 0")
  case None
  then show ?thesis by (simp add: cancelled_ctx_def)
next
  case (Some r)
  from pause_wait_returns[OF this] show ?thesis by (simp add: stuck_poll)
qed

section \<open>Reading the change log\<close>

lemma scan_changeIDs:
  "\<exists>ys. changeIDs (foldl scan_change sc rows) = changeIDs sc @ ys \<and> subseq ys (map fst rows)"
proof (induction rows arbitrary: sc)
  case Nil
  show ?case by simp
next
  case (Cons row rows)
  obtain cid tbl rid where row: "row = (cid, tbl, rid)" by (cases row) auto
  from Cons.IH[of "scan_change sc row"] obtain ys where
    ys: "changeIDs (foldl scan_change (scan_change sc row) rows) = changeIDs (scan_change sc row) @ ys"
      "subseq ys (map fst rows)" by blast
  show ?case
  proof (cases "(tbl, rid) \<in> changes sc")
    case True
    then have "scan_change sc row = sc" by (simp add: scan_change_def row)
    moreover from ys(2) have "subseq ys (cid # map fst rows)" by (rule list_emb_Cons)
    ultimately show ?thesis using ys(1) by (intro exI[of _ ys]) (simp add: row)
  next
    case False
    then have "changeIDs (scan_change sc row) = changeIDs sc @ [cid]"
      by (simp add: scan_change_def row)
    with ys show ?thesis by (intro exI[of _ "cid # ys"]) (simp add: row)
  qed
qed

lemma scan_subseq: "subseq (changeIDs (foldl scan_change scan_init rows)) (map fst rows)"
  using scan_changeIDs[of scan_init rows] by (auto simp: scan_init_def)

lemma subseq_sorted: "subseq xs ys \<Longrightarrow> sorted ys \<Longrightarrow> sorted (xs :: int list)"
proof (induction rule: list_emb.induct)
  case (list_emb_Nil ys)
  show ?case by simp
next
  case (list_emb_Cons xs ys y)
  then show ?case by simp
next
  case (list_emb_Cons2 x y xs ys)
  have "x \<le> a" if "a \<in> set xs" for a
  proof -
    from list_emb_set[OF list_emb_Cons2(2) that] obtain b where "b \<in> set ys" "a = b" by blast
    with list_emb_Cons2(1,4) show ?thesis by auto
  qed
  with list_emb_Cons2 show ?case by auto
qed

section \<open>The events of a drain\<close>

lemma rt_fetch_trace:
  assumes "rt_fetch e t ids st = (r, st')"
  shows "\<exists>evs. trace st' = trace st @ evs \<and> (\<forall>ev\<in>set evs. sync_event ev \<and> \<not> mismatch ev)"
proof (cases "Table_IDs t ids")
  case (Panic err)
  with assms show ?thesis by (simp add: rt_fetch_def)
next
  case (Return a)
  let ?res = "select_rows e (trace st) (SelectRowsQuery t) a"
  have "trace st' = trace st @ [Query (SelectRowsQuery t) a ?res]"
    using assms Return
    by (auto simp: rt_fetch_def Let_def emit_def split: qres.splits if_splits prod.splits option.splits)
  then show ?thesis by simp
qed

lemma rt_apply_trace:
  assumes "rt_apply e q rows st = (r, st')"
  shows "\<exists>evs. trace st' = trace st @ evs \<and> (\<forall>ev\<in>set evs. sync_event ev)
           \<and> (r = None \<longrightarrow> (\<forall>ev\<in>set evs. \<not> mismatch ev))"
proof (cases "rows = []")
  case True
  with assms show ?thesis by (simp add: rt_apply_def)
next
  case False
  show ?thesis
  proof (cases "json_Marshal e (map row_data rows)")
    case (Inl err)
    with assms False show ?thesis by (simp add: rt_apply_def)
  next
    case (Inr dat)
    then have dat: "dat = JSONArray (map row_data rows)"
      by (auto simp: json_Marshal_def split: if_splits)
    let ?res = "exec e (trace st) Dst q [dat]"
    have tr: "trace st' = trace st @ [Exec Dst q [dat] ?res]"
      using assms False Inr
      by (auto simp: rt_apply_def Let_def emit_def split: sum.splits if_splits)
    have "r = None \<Longrightarrow> \<not> mismatch (Exec Dst q [dat] ?res)"
      using assms False Inr dat
      by (auto simp: rt_apply_def Let_def emit_def split: sum.splits if_splits)
    with tr show ?thesis by simp
  qed
qed

lemma run_deletes_trace:
  assumes "run_deletes e ds st = (r, st')" "\<forall>d\<in>set ds. counted d"
  shows "\<exists>evs. trace st' = trace st @ evs \<and> (\<forall>ev\<in>set evs. sync_event ev)
           \<and> (r = None \<longrightarrow> (\<forall>ev\<in>set evs. \<not> mismatch ev)) \<and> rt st' = rt st"
  using assms
proof (induction ds arbitrary: st)
  case Nil
  then show ?case by simp
next
  case (Cons d ds)
  let ?res = "exec e (trace st) Dst (pd_query d) [pd_idArg d]"
  let ?ev = "Exec Dst (pd_query d) [pd_idArg d] ?res"
  let ?st1 = "emit ?ev st"
  show ?case
  proof (cases "\<exists>m. ?res = Inr m \<and> m = int (pd_count d)")
    case True
    then have rec: "run_deletes e ds ?st1 = (r, st')"
      using Cons.prems(1) by (auto simp: Let_def)
    from Cons.IH[OF rec] Cons.prems(2) obtain evs where
      evs: "trace st' = trace ?st1 @ evs" "\<forall>ev\<in>set evs. sync_event ev"
        "r = None \<longrightarrow> (\<forall>ev\<in>set evs. \<not> mismatch ev)" "rt st' = rt ?st1" by auto
    have "\<not> mismatch ?ev" using True Cons.prems(2) by (auto simp: counted_def)
    with evs show ?thesis
      by (intro exI[of _ "?ev # evs"]) (simp add: emit_def)
  next
    case False
    then have "r \<noteq> None \<and> st' = ?st1"
      using Cons.prems(1) by (auto simp: Let_def split: sum.splits if_splits)
    then show ?thesis
      by (intro exI[of _ "[?ev]"]) (auto simp: emit_def)
  qed
qed

lemma sync_tables_trace:
  assumes "sync_tables e ids ts dels st = (r, st')" "\<forall>d\<in>set dels. counted d"
  shows "\<exists>evs. trace st' = trace st @ evs \<and> (\<forall>ev\<in>set evs. sync_event ev)
           \<and> (\<forall>ds. r = Return (Inr ds) \<longrightarrow>
                 (\<forall>ev\<in>set evs. \<not> mismatch ev) \<and> (\<forall>d\<in>set ds. counted d))
           \<and> ((\<exists>err. r = Panic err) \<longrightarrow> (\<forall>ev\<in>set evs. \<not> mismatch ev))"
  using assms
proof (induction ts arbitrary: dels st)
  case Nil
  then show ?case by auto
next
  case (Cons t ts)
  show ?case
  proof (cases "SkipSync t \<or> length (ids (Name t)) = 0")
    case True
    then have "sync_tables e ids ts dels st = (r, st')"
      using Cons.prems(1) by (auto split: if_splits)
    from Cons.IH[OF this Cons.prems(2)] show ?thesis .
  next
    case False
    obtain fr st1 where f: "rt_fetch e t (ids (Name t)) st = (fr, st1)" by force
    from rt_fetch_trace[OF f] obtain evs1 where
      evs1: "trace st1 = trace st @ evs1" "\<forall>ev\<in>set evs1. sync_event ev \<and> \<not> mismatch ev" by blast
    show ?thesis
    proof (cases fr)
      case (Panic err)
      with Cons.prems(1) False f have "r = Panic err \<and> st' = st1" by auto
      with evs1 show ?thesis by auto
    next
      case (Return x)
      show ?thesis
      proof (cases x)
        case (Inl err)
        with Cons.prems(1) False f Return have "r = Return (Inl (Wrap ''fetch changed rows'' err)) \<and> st' = st1"
          by auto
        with evs1 show ?thesis by auto
      next
        case (Inr sd)
        define dr where "dr =
          (if length (toDelete sd) > 0
           then (case Table_IDs t (toDelete sd) of
                   Panic err \<Rightarrow> Panic err
                 | Return a \<Rightarrow>
                     Return (dels @ [\<lparr>pd_query = DeleteRowsQuery t, pd_idArg = a,
                                       pd_count = length (toDelete sd)\<rparr>]))
           else Return dels)"
        have eq: "sync_tables e ids (t # ts) dels st =
          (case dr of
             Panic err \<Rightarrow> (Panic err, st1)
           | Return deletes' \<Rightarrow>
               (case rt_apply e (UpdateRowsQuery t) (toUpdate sd) st1 of
                  (Some err, st2) \<Rightarrow> (Return (Inl (Wrap ''apply updates'' err)), st2)
                | (None, st2) \<Rightarrow>
                    (case rt_apply e (InsertRowsQuery t) (toInsert sd) st2 of
                       (Some err, st3) \<Rightarrow> (Return (Inl (Wrap ''apply inserts'' err)), st3)
                     | (None, st3) \<Rightarrow> sync_tables e ids ts deletes' st3)))"
          using False f Return Inr by (simp add: dr_def)
        show ?thesis
        proof (cases dr)
          case (Panic err)
          with eq Cons.prems(1) have "r = Panic err \<and> st' = st1" by simp
          with evs1 show ?thesis by auto
        next
          case dr: (Return dels')
          have c': "\<forall>d\<in>set dels'. counted d"
            using dr Cons.prems(2)
            by (auto simp: dr_def counted_def Table_IDs_length split: if_splits outcome.splits)
          obtain ur st2 where u: "rt_apply e (UpdateRowsQuery t) (toUpdate sd) st1 = (ur, st2)" by force
          from rt_apply_trace[OF u] obtain evs2 where
            evs2: "trace st2 = trace st1 @ evs2" "\<forall>ev\<in>set evs2. sync_event ev"
              "ur = None \<longrightarrow> (\<forall>ev\<in>set evs2. \<not> mismatch ev)" by blast
          show ?thesis
          proof (cases ur)
            case (Some err)
            with eq dr u Cons.prems(1) have "r = Return (Inl (Wrap ''apply updates'' err)) \<and> st' = st2"
              by simp
            with evs1 evs2 show ?thesis by (intro exI[of _ "evs1 @ evs2"]) auto
          next
            case None
            obtain ir st3 where i: "rt_apply e (InsertRowsQuery t) (toInsert sd) st2 = (ir, st3)" by force
            from rt_apply_trace[OF i] obtain evs3 where
              evs3: "trace st3 = trace st2 @ evs3" "\<forall>ev\<in>set evs3. sync_event ev"
                "ir = None \<longrightarrow> (\<forall>ev\<in>set evs3. \<not> mismatch ev)" by blast
            show ?thesis
            proof (cases ir)
              case (Some err)
              with eq dr u None i Cons.prems(1)
              have "r = Return (Inl (Wrap ''apply inserts'' err)) \<and> st' = st3" by simp
              with evs1 evs2 evs3 show ?thesis by (intro exI[of _ "evs1 @ evs2 @ evs3"]) auto
            next
              case ir: None
              with eq dr u None i Cons.prems(1)
              have rec: "sync_tables e ids ts dels' st3 = (r, st')" by simp
              from Cons.IH[OF rec c'] obtain evs4 where
                evs4: "trace st' = trace st3 @ evs4" "\<forall>ev\<in>set evs4. sync_event ev"
                  "\<forall>ds. r = Return (Inr ds) \<longrightarrow>
                       (\<forall>ev\<in>set evs4. \<not> mismatch ev) \<and> (\<forall>d\<in>set ds. counted d)"
                  "(\<exists>err. r = Panic err) \<longrightarrow> (\<forall>ev\<in>set evs4. \<not> mismatch ev)" by blast
              have m: "\<forall>ev\<in>set (evs1 @ evs2 @ evs3). \<not> mismatch ev"
                using evs1(2) evs2(3) evs3(3) None ir by auto
              have s: "\<forall>ev\<in>set (evs1 @ evs2 @ evs3 @ evs4). sync_event ev"
                using evs1(2) evs2(2) evs3(2) evs4(2) by auto
              have t: "trace st' = trace st @ (evs1 @ evs2 @ evs3 @ evs4)"
                using evs1(1) evs2(1) evs3(1) evs4(1) by simp
              show ?thesis
                using m s t evs4(3,4) by (intro exI[of _ "evs1 @ evs2 @ evs3 @ evs4"]) auto
            qed
          qed
        qed
      qed
    qed
  qed
qed

lemma syncChangeLog_trace:
  assumes "syncChangeLog e st = (r, st')"
  shows "\<exists>evs. trace st' = trace st @ ReadChangeLog change_log_query (change_log e (trace st)) # evs
           \<and> (\<forall>ev\<in>set evs. sync_event ev)
           \<and> ((\<forall>ids err. r \<noteq> Return (ids, Some err)) \<longrightarrow> (\<forall>ev\<in>set evs. \<not> mismatch ev))"
proof -
  let ?res = "change_log e (trace st)"
  let ?st1 = "emit (ReadChangeLog change_log_query ?res) st"
  show ?thesis
  proof (cases ?res)
    case (Inl err)
    with assms have "st' = ?st1" by (simp add: syncChangeLog_def Let_def)
    then show ?thesis by (simp add: emit_def)
  next
    case (Inr rows)
    define sc where "sc = foldl scan_change scan_init rows"
    show ?thesis
    proof (cases "changes sc = {}")
      case True
      with assms Inr have "st' = ?st1" by (simp add: syncChangeLog_def Let_def sc_def)
      then show ?thesis by (simp add: emit_def)
    next
      case False
      let ?r = "exec e (trace ?st1) Dst ''SET CONSTRAINTS ALL DEFERRED'' []"
      let ?ev = "Exec Dst ''SET CONSTRAINTS ALL DEFERRED'' [] ?r"
      let ?st2 = "emit ?ev ?st1"
      have ev: "sync_event ?ev \<and> \<not> mismatch ?ev" by (simp split: sum.splits)
      show ?thesis
      proof (cases ?r)
        case (Inl err)
        with assms Inr False have "st' = ?st2" by (simp add: syncChangeLog_def Let_def sc_def)
        with ev show ?thesis by (intro exI[of _ "[?ev]"]) (simp add: emit_def)
      next
        case r: (Inr m)
        obtain tr st3 where t: "sync_tables e (scan_rowIDs sc) (tables (rt ?st2)) [] ?st2 = (tr, st3)"
          by force
        from sync_tables_trace[OF t] obtain evs3 where
          evs3: "trace st3 = trace ?st2 @ evs3" "\<forall>ev\<in>set evs3. sync_event ev"
            "\<forall>ds. tr = Return (Inr ds) \<longrightarrow>
               (\<forall>ev\<in>set evs3. \<not> mismatch ev) \<and> (\<forall>d\<in>set ds. counted d)"
            "(\<exists>err. tr = Panic err) \<longrightarrow> (\<forall>ev\<in>set evs3. \<not> mismatch ev)" by auto
        have eq: "syncChangeLog e st =
          (case (tr, st3) of
             (Panic err, st3) \<Rightarrow> (Panic err, st3)
           | (Return (Inl err), st3) \<Rightarrow> (Return (changeIDs sc, Some err), st3)
           | (Return (Inr deletes), st3) \<Rightarrow>
               (case run_deletes e (rev deletes) st3 of
                  (Some err, st4) \<Rightarrow> (Return (changeIDs sc, Some err), st4)
                | (None, st4) \<Rightarrow> (Return (changeIDs sc, None), st4)))"
          using Inr False r t unfolding sc_def by (simp add: syncChangeLog_def Let_def)
        show ?thesis
        proof (cases tr)
          case (Panic err)
          with eq assms have "r = Panic err \<and> st' = st3" by simp
          with evs3 ev Panic show ?thesis by (intro exI[of _ "?ev # evs3"]) (auto simp: emit_def)
        next
          case (Return x)
          show ?thesis
          proof (cases x)
            case (Inl err)
            with eq assms Return have "r = Return (changeIDs sc, Some err) \<and> st' = st3" by simp
            with evs3 ev show ?thesis by (intro exI[of _ "?ev # evs3"]) (auto simp: emit_def)
          next
            case (Inr ds)
            obtain dr st4 where d: "run_deletes e (rev ds) st3 = (dr, st4)" by force
            have "\<forall>d\<in>set (rev ds). counted d" using evs3(3) Return Inr by simp
            from run_deletes_trace[OF d this] obtain evs4 where
              evs4: "trace st4 = trace st3 @ evs4" "\<forall>ev\<in>set evs4. sync_event ev"
                "dr = None \<longrightarrow> (\<forall>ev\<in>set evs4. \<not> mismatch ev)" by blast
            have m3: "\<forall>ev\<in>set evs3. \<not> mismatch ev" using evs3(3) Return Inr by simp
            have res: "st' = st4 \<and> (dr = None \<longrightarrow> r = Return (changeIDs sc, None))
                \<and> (dr \<noteq> None \<longrightarrow> (\<exists>err. r = Return (changeIDs sc, Some err)))"
              using eq assms Return Inr d by (cases dr) auto
            have t: "trace st' = trace st @ ReadChangeLog change_log_query ?res # (?ev # evs3 @ evs4)"
              using res evs3(1) evs4(1) by (simp add: emit_def)
            have s: "\<forall>ev\<in>set (?ev # evs3 @ evs4). sync_event ev"
              using ev evs3(2) evs4(2) by auto
            have m: "(\<forall>ids err. r \<noteq> Return (ids, Some err)) \<longrightarrow>
                (\<forall>ev\<in>set (?ev # evs3 @ evs4). \<not> mismatch ev)"
              using ev m3 evs4(3) res by auto
            from t s m show ?thesis by blast
          qed
        qed
      qed
    qed
  qed
qed

section \<open>What \<^verbatim>\<open>syncChangeLog\<close> reads and returns\<close>

lemma scan_changes: "changes (foldl scan_change sc rows) = changes sc \<union> snd ` set rows"
proof (induction rows arbitrary: sc)
  case Nil
  show ?case by simp
next
  case (Cons row rows)
  obtain cid tbl rid where row: "row = (cid, tbl, rid)" by (cases row) auto
  show ?case unfolding foldl_Cons Cons.IH
    by (auto simp: scan_change_def row)
qed

lemma scan_distinct:
  "distinct (map snd rows) \<Longrightarrow> snd ` set rows \<inter> changes sc = {} \<Longrightarrow>
     changeIDs (foldl scan_change sc rows) = changeIDs sc @ map fst rows"
proof (induction rows arbitrary: sc)
  case Nil
  show ?case by simp
next
  case (Cons row rows)
  obtain cid tbl rid where row: "row = (cid, tbl, rid)" by (cases row) auto
  from Cons.prems have new: "(tbl, rid) \<notin> changes sc" by (auto simp: row)
  then have sc': "changes (scan_change sc row) = insert (tbl, rid) (changes sc)"
    "changeIDs (scan_change sc row) = changeIDs sc @ [cid]"
    by (simp_all add: scan_change_def row)
  from Cons.prems have d: "distinct (map snd rows)" by simp
  from Cons.prems have "snd ` set rows \<inter> insert (tbl, rid) (changes sc) = {}"
    by (auto simp: row)
  then have "snd ` set rows \<inter> changes (scan_change sc row) = {}"
    by (simp only: sc'(1))
  from Cons.IH[OF d this]
  have "changeIDs (foldl scan_change (scan_change sc row) rows) = (changeIDs sc @ [cid]) @ map fst rows"
    by (simp only: sc'(2))
  then show ?case by (simp add: row)
qed

lemma syncChangeLog_ids:
  assumes "change_log e (trace st) = Inr rows" "syncChangeLog e st = (Return (ids, err), st')"
  shows "ids = changeIDs (foldl scan_change scan_init rows)"
proof (cases "changes (foldl scan_change scan_init rows) = {}")
  case True
  then have "snd ` set rows = {}" using scan_changes[of scan_init rows] by simp
  then have "rows = []" by simp
  with assms True show ?thesis
    by (simp add: syncChangeLog_def Let_def scan_init_def)
next
  case False
  with assms show ?thesis
    by (auto simp: syncChangeLog_def Let_def split: sum.splits prod.splits outcome.splits option.splits)
qed

text \<open>
  Claim C2 fails on the code. The change log holds two entries, with ids 1 and 2, for
  the same row \<open>7\<close> of table \<open>a\<close> (the row was inserted and deleted in the same drain
  window). The drain iteration returns and deletes id 1 only: the callback returns early
  on the second entry, before it appends the id to \<^verbatim>\<open>changeIDs\<close>.
\<close>

theorem LoopSync_keeps_duplicate_change_id:
  "LoopSync dup_env tracking_state =
     (Return (1, 0, None),
      tracking_state\<lparr>trace :=
        [BeginTx Src ReadOnlySerializableDeferrable None,
         BeginTx Dst DefaultOptions None,
         ReadChangeLog change_log_query (Inr [(1, ''a'', ''7''), (2, ''a'', ''7'')]),
         Exec Dst ''SET CONSTRAINTS ALL DEFERRED'' [] (Inr 0),
         Query ''select a'' (StringArray [''7'']) (QRows [] None),
         CommitTx Src None,
         CommitTx Dst None,
         Exec Src delete_change_log_query [IntArray [1]] (Inr 1),
         RollbackTx Dst,
         RollbackTx Src]\<rparr>)"
  by (simp add: LoopSync_def LoopSync_tx_def syncTx_def syncChangeLog_def rt_fetch_def
      fetch_row_def fetch_id_def rt_apply_def Table_IDs_def rt_Exists_def
      dup_env_def quiet_env_def tracking_state_def text_table_def emit_def batch_size_def
      scan_change_def scan_init_def Let_def)

text \<open>
  Claim C9, as amended. \<^verbatim>\<open>syncChangeLog\<close> reads the change log with the statement
  \<open>change_log_query\<close>, which has no ordering clause, and consumes the rows in the order
  in which the source returns them: the ids it returns are a subsequence of the ids in
  that order, ascending when the source returned them ascending, and all of them in that
  order when no row of a table occurs twice.
\<close>

theorem syncChangeLog_consumes_in_read_order:
  assumes "change_log e (trace st) = Inr rows" "syncChangeLog e st = (Return (ids, err), st')"
  shows "(\<exists>evs. trace st' = trace st @ ReadChangeLog change_log_query (Inr rows) # evs)
     \<and> subseq ids (map fst rows)
     \<and> (sorted (map fst rows) \<longrightarrow> sorted ids)
     \<and> (distinct (map snd rows) \<longrightarrow> ids = map fst rows)"
proof -
  have ids: "ids = changeIDs (foldl scan_change scan_init rows)"
    by (rule syncChangeLog_ids[OF assms])
  have sub: "subseq ids (map fst rows)" unfolding ids by (rule scan_subseq)
  have "distinct (map snd rows) \<Longrightarrow> ids = map fst rows"
    unfolding ids using scan_distinct[of rows scan_init] by (simp add: scan_init_def)
  moreover from syncChangeLog_trace[OF assms(2)] assms(1)
  have "\<exists>evs. trace st' = trace st @ ReadChangeLog change_log_query (Inr rows) # evs" by auto
  ultimately show ?thesis using sub subseq_sorted[OF sub] by blast
qed

theorem syncChangeLog_consumes_in_read_order_witness:
  "change_log dup_env (trace empty_state) = Inr [(1, ''a'', ''7''), (2, ''a'', ''7'')]
   \<and> fst (syncChangeLog dup_env empty_state) = Return ([1], None)
   \<and> subseq [1] (map fst [(1 :: int, ''a'', ''7''), (2, ''a'', ''7'')])
   \<and> sorted [1 :: int]"
proof -
  have h1: "change_log dup_env (trace empty_state) = Inr [(1, ''a'', ''7''), (2, ''a'', ''7'')]"
    by (simp add: dup_env_def quiet_env_def)
  have f: "fst (syncChangeLog dup_env empty_state) = Return ([1], None)"
    by (simp add: syncChangeLog_def dup_env_def quiet_env_def empty_state_def emit_def
        scan_change_def scan_init_def Let_def)
  then have h2: "syncChangeLog dup_env empty_state =
      (Return ([1], None), snd (syncChangeLog dup_env empty_state))"
    by (cases "syncChangeLog dup_env empty_state") simp
  have s: "sorted (map fst [(1 :: int, ''a'', ''7''), (2, ''a'', ''7'')])" by simp
  from syncChangeLog_consumes_in_read_order[OF h1 h2] s h1 f show ?thesis by blast
qed

text \<open>
  Claim C9 as stated fails: the source returns the entry with id 2 before the entry with
  id 1, and the iteration consumes them in that order.
\<close>

theorem syncChangeLog_unordered_read:
  "fst (syncChangeLog unordered_env empty_state) = Return ([2, 1], None) \<and> \<not> sorted [2, 1 :: int]"
  by (simp add: syncChangeLog_def unordered_env_def quiet_env_def empty_state_def emit_def
      scan_change_def scan_init_def Let_def)

section \<open>\<^verbatim>\<open>fetch\<close>\<close>

text \<open>
  When the query succeeds, \<^verbatim>\<open>fetch\<close> classifies against the tracker: a returned row is
  an update if the tracker knows its id and an insert, recorded in the pending additions,
  if not; a pending id that was not returned is a delete, recorded in the pending
  removals, if the tracker knows it, and is dropped if not.
\<close>

lemma foldl_fetch_row:
  "foldl (fetch_row tbl) (sd, ex, r) rows =
     (sd\<lparr>toInsert := toInsert sd @
            map (\<lambda>row. \<lparr>row_table = tbl, row_id = fst row, row_data = snd row\<rparr>)
              (filter (\<lambda>row. \<not> rt_Exists r tbl (fst row)) rows),
         toUpdate := toUpdate sd @
            map (\<lambda>row. \<lparr>row_table = tbl, row_id = fst row, row_data = snd row\<rparr>)
              (filter (\<lambda>row. rt_Exists r tbl (fst row)) rows)\<rparr>,
      ex \<union> fst ` set rows,
      r\<lparr>stagedInserts := stagedInserts r @
            map (\<lambda>row. (tbl, fst row)) (filter (\<lambda>row. \<not> rt_Exists r tbl (fst row)) rows)\<rparr>)"
proof (induction rows arbitrary: sd ex r)
  case Nil
  show ?case by simp
next
  case (Cons row rows)
  obtain rid dat where row: "row = (rid, dat)" by (cases row) auto
  show ?case
  proof (cases "rt_Exists r tbl rid")
    case True
    have step: "fetch_row tbl (sd, ex, r) (rid, dat) =
        (sd\<lparr>toUpdate := toUpdate sd @ [\<lparr>row_table = tbl, row_id = rid, row_data = dat\<rparr>]\<rparr>,
         insert rid ex, r)"
      using True by (simp add: fetch_row_def)
    show ?thesis unfolding row foldl_Cons step Cons.IH
      using True by simp
  next
    case False
    have ex: "rt_Exists (rt_Insert r tbl rid) tbl x = rt_Exists r tbl x" for x
      by (simp add: rt_Exists_def rt_Insert_def)
    have step: "fetch_row tbl (sd, ex, r) (rid, dat) =
        (sd\<lparr>toInsert := toInsert sd @ [\<lparr>row_table = tbl, row_id = rid, row_data = dat\<rparr>]\<rparr>,
         insert rid ex, rt_Insert r tbl rid)"
      using False by (simp add: fetch_row_def)
    show ?thesis unfolding row foldl_Cons step Cons.IH ex
      using False by (simp add: rt_Insert_def)
  qed
qed

lemma foldl_fetch_id:
  "foldl (fetch_id tbl ex) (sd, r) ids =
     (sd\<lparr>toDelete := toDelete sd @ filter (\<lambda>rid. rid \<notin> ex \<and> rt_Exists r tbl rid) ids\<rparr>,
      r\<lparr>stagedDeletes := stagedDeletes r @
            map (\<lambda>rid. (tbl, rid)) (filter (\<lambda>rid. rid \<notin> ex \<and> rt_Exists r tbl rid) ids)\<rparr>)"
proof (induction ids arbitrary: sd r)
  case Nil
  show ?case by simp
next
  case (Cons rid ids)
  have ex: "rt_Exists (rt_Delete r tbl rid) tbl x = rt_Exists r tbl x" for x
    by (simp add: rt_Exists_def rt_Delete_def)
  show ?case
  proof (cases "rid \<notin> ex \<and> rt_Exists r tbl rid")
    case True
    then have step: "fetch_id tbl ex (sd, r) rid =
        (sd\<lparr>toDelete := toDelete sd @ [rid]\<rparr>, rt_Delete r tbl rid)"
      by (simp add: fetch_id_def)
    show ?thesis unfolding foldl_Cons step Cons.IH ex
      using True by (simp add: rt_Delete_def)
  next
    case False
    then have step: "fetch_id tbl ex (sd, r) rid = (sd, r)"
      by (auto simp: fetch_id_def)
    show ?thesis unfolding foldl_Cons step Cons.IH
      using False by auto
  qed
qed

lemma rt_fetch_classifies:
  assumes "Table_IDs t ids = Return a"
    and "select_rows e (trace st) (SelectRowsQuery t) a = QRows rows None"
  shows "rt_fetch e t ids st =
     (Return (Inr
        \<lparr>toInsert = map (\<lambda>row. \<lparr>row_table = Name t, row_id = fst row, row_data = snd row\<rparr>)
                      (filter (\<lambda>row. \<not> rt_Exists (rt st) (Name t) (fst row)) rows),
         toUpdate = map (\<lambda>row. \<lparr>row_table = Name t, row_id = fst row, row_data = snd row\<rparr>)
                      (filter (\<lambda>row. rt_Exists (rt st) (Name t) (fst row)) rows),
         toDelete = filter (\<lambda>rid. rid \<notin> fst ` set rows \<and> rt_Exists (rt st) (Name t) rid) ids\<rparr>),
      st\<lparr>trace := trace st @ [Query (SelectRowsQuery t) a (QRows rows None)],
         rt := (rt st)
           \<lparr>stagedInserts := stagedInserts (rt st) @
              map (\<lambda>row. (Name t, fst row))
                (filter (\<lambda>row. \<not> rt_Exists (rt st) (Name t) (fst row)) rows),
            stagedDeletes := stagedDeletes (rt st) @
              map (\<lambda>rid. (Name t, rid))
                (filter (\<lambda>rid. rid \<notin> fst ` set rows \<and> rt_Exists (rt st) (Name t) rid) ids)\<rparr>\<rparr>)"
proof -
  have ex: "rt_Exists (r\<lparr>stagedInserts := x\<rparr>) tbl y = rt_Exists r tbl y" for r x tbl y
    by (simp add: rt_Exists_def)
  show ?thesis
    using assms
    by (simp add: rt_fetch_def Let_def emit_def foldl_fetch_row foldl_fetch_id ex)
qed


section \<open>The steps of a drain iteration\<close>

lemma syncTx_cases:
  assumes "syncTx e st = (r, st')"
  shows "(r = None \<and> trace st' = trace st @
            [BeginTx Src ReadOnlySerializableDeferrable None, BeginTx Dst DefaultOptions None]
            \<and> rt st' = rt st)
       \<or> (\<exists>err. r \<noteq> None \<and> trace st' = trace st @ [BeginTx Src ReadOnlySerializableDeferrable (Some err)])
       \<or> (\<exists>err. r \<noteq> None \<and> trace st' = trace st @
            [BeginTx Src ReadOnlySerializableDeferrable None, BeginTx Dst DefaultOptions (Some err),
             RollbackTx Src])"
  using assms by (auto simp: syncTx_def Let_def emit_def split: option.splits)

lemma LoopSync_tx_cases:
  assumes "LoopSync_tx e st = (r, st')"
  shows "\<exists>sevs tl. trace st' = trace st @ sevs @ tl \<and> sevs \<noteq> [] \<and> (\<forall>ev\<in>set sevs. sync_event ev)
     \<and> ((tl = [] \<and> (\<exists>(ids :: int list) err.
                        r = Return (0, int (length ids), Some (Wrap ''sync change log'' err))))
        \<or> ((\<forall>ev\<in>set sevs. \<not> mismatch ev) \<and>
            ((tl = [] \<and> (\<exists>err. r = Panic err))
           \<or> (\<exists>(ids :: int list) err. tl = [CommitTx Src (Some err)]
                 \<and> r = Return (int (length ids), 0, Some (Wrap ''commit src'' err)))
           \<or> (\<exists>(ids :: int list) err. tl = [CommitTx Src None, CommitTx Dst (Some err)]
                 \<and> r = Return (0, int (length ids), Some (Wrap ''commit dst'' err)))
           \<or> (\<exists>ids res. tl = [CommitTx Src None, CommitTx Dst None,
                               Exec Src delete_change_log_query [IntArray ids] res]
                 \<and> r = Return (int (length ids), 0,
                        case res of Inl err \<Rightarrow> Some (Wrap ''update change log'' err) | Inr _ \<Rightarrow> None)))))"
proof -
  obtain sr st1 where s: "syncChangeLog e st = (sr, st1)" by force
  from syncChangeLog_trace[OF s] obtain evs where
    evs: "trace st1 = trace st @ ReadChangeLog change_log_query (change_log e (trace st)) # evs"
      "\<forall>ev\<in>set evs. sync_event ev"
      "(\<forall>ids err. sr \<noteq> Return (ids, Some err)) \<longrightarrow> (\<forall>ev\<in>set evs. \<not> mismatch ev)" by blast
  define sevs where "sevs = ReadChangeLog change_log_query (change_log e (trace st)) # evs"
  have sv: "sevs \<noteq> []" "\<forall>ev\<in>set sevs. sync_event ev" using evs(2) by (simp_all add: sevs_def)
  have t1: "trace st1 = trace st @ sevs" using evs(1) by (simp add: sevs_def)
  show ?thesis
  proof (cases sr)
    case (Panic err)
    with assms s have "r = Panic err" "st' = st1" by (simp_all add: LoopSync_tx_def)
    then have "\<exists>err. r = Panic err" "trace st' = trace st @ sevs @ []" using t1 by simp_all
    moreover from evs(3) Panic have "\<forall>ev\<in>set sevs. \<not> mismatch ev" by (simp add: sevs_def)
    ultimately show ?thesis using sv by blast
  next
    case (Return p)
    obtain ids oe where p: "p = (ids, oe)" by (cases p) auto
    show ?thesis
    proof (cases oe)
      case (Some err)
      with assms s Return p
      have r: "r = Return (0, int (length ids), Some (Wrap ''sync change log'' err))" and "st' = st1"
        by (simp_all add: LoopSync_tx_def)
      then have t: "trace st' = trace st @ sevs @ []" using t1 by simp
      from r have "\<exists>(ids :: int list) err.
          r = Return (0, int (length ids), Some (Wrap ''sync change log'' err))"
        by blast
      with t sv show ?thesis by blast
    next
      case None
      with evs(3) Return p have nm: "\<forall>ev\<in>set sevs. \<not> mismatch ev" by (simp add: sevs_def)
      let ?c = "commit_tx e (trace st1) Src"
      let ?st2 = "emit (CommitTx Src ?c) st1"
      show ?thesis
      proof (cases ?c)
        case (Some err)
        with assms s Return p None
        have r: "r = Return (int (length ids), 0, Some (Wrap ''commit src'' err))" and "st' = ?st2"
          by (simp_all add: LoopSync_tx_def Let_def)
        then have t: "trace st' = trace st @ sevs @ [CommitTx Src (Some err)]"
          using t1 Some by (simp add: emit_def)
        from r have "\<exists>ids :: int list. r = Return (int (length ids), 0, Some (Wrap ''commit src'' err))"
          by blast
        with t sv nm show ?thesis by blast
      next
        case cn: None
        let ?d = "commit_tx e (trace ?st2) Dst"
        let ?st3 = "emit (CommitTx Dst ?d) ?st2"
        show ?thesis
        proof (cases ?d)
          case (Some err)
          with assms s Return p None cn
          have r: "r = Return (0, int (length ids), Some (Wrap ''commit dst'' err))" and "st' = ?st3"
            by (simp_all add: LoopSync_tx_def Let_def)
          then have t: "trace st' = trace st @ sevs @ [CommitTx Src None, CommitTx Dst (Some err)]"
            using t1 Some cn by (simp add: emit_def)
          from r have "\<exists>ids :: int list. r = Return (0, int (length ids), Some (Wrap ''commit dst'' err))"
            by blast
          with t sv nm show ?thesis by blast
        next
          case dn: None
          let ?x = "exec e (trace ?st3) Src delete_change_log_query [IntArray ids]"
          let ?st4 = "emit (Exec Src delete_change_log_query [IntArray ids] ?x) ?st3"
          from assms s Return p None cn dn
          have r: "r = Return (int (length ids), 0,
                  case ?x of Inl err \<Rightarrow> Some (Wrap ''update change log'' err) | Inr _ \<Rightarrow> None)"
            and "st' = ?st4"
            by (auto simp: LoopSync_tx_def Let_def split: sum.splits)
          then have t: "trace st' = trace st @ sevs @ [CommitTx Src None, CommitTx Dst None,
                  Exec Src delete_change_log_query [IntArray ids] ?x]"
            using t1 dn cn by (simp add: emit_def)
          from t r show ?thesis using sv nm by blast
        qed
      qed
    qed
  qed
qed


lemma sync_event_phase: "sync_event ev \<Longrightarrow> phase ev = 2"
  by (cases ev) auto


lemma sync_event_not_Commit: "sync_event ev \<Longrightarrow> ev \<noteq> CommitTx d c"
  by (cases ev) auto

lemma LoopSync_cases:
  assumes "LoopSync e st = (r, st')"
  shows "(\<exists>err. trace st' = trace st @ [BeginTx Src ReadOnlySerializableDeferrable (Some err)]
            \<and> r = Return (0, 0, Some (Wrap ''sync tx'' (Wrap ''begin src'' err))))
    \<or> (\<exists>err. trace st' = trace st @ [BeginTx Src ReadOnlySerializableDeferrable None,
               BeginTx Dst DefaultOptions (Some err), RollbackTx Src]
            \<and> r = Return (0, 0, Some (Wrap ''sync tx'' (Wrap ''begin dst'' err))))
    \<or> (\<exists>sevs tl. trace st' = trace st @ BeginTx Src ReadOnlySerializableDeferrable None
               # BeginTx Dst DefaultOptions None # sevs @ tl @ [RollbackTx Dst, RollbackTx Src]
          \<and> sevs \<noteq> [] \<and> (\<forall>ev\<in>set sevs. sync_event ev)
          \<and> ((tl = [] \<and> (\<exists>(ids :: int list) err.
                        r = Return (0, int (length ids), Some (Wrap ''sync change log'' err))))
        \<or> ((\<forall>ev\<in>set sevs. \<not> mismatch ev) \<and>
            ((tl = [] \<and> (\<exists>err. r = Panic err))
           \<or> (\<exists>(ids :: int list) err. tl = [CommitTx Src (Some err)]
                 \<and> r = Return (int (length ids), 0, Some (Wrap ''commit src'' err)))
           \<or> (\<exists>(ids :: int list) err. tl = [CommitTx Src None, CommitTx Dst (Some err)]
                 \<and> r = Return (0, int (length ids), Some (Wrap ''commit dst'' err)))
           \<or> (\<exists>ids res. tl = [CommitTx Src None, CommitTx Dst None,
                               Exec Src delete_change_log_query [IntArray ids] res]
                 \<and> r = Return (int (length ids), 0,
                        case res of Inl err \<Rightarrow> Some (Wrap ''update change log'' err) | Inr _ \<Rightarrow> None))))))"
proof -
  let ?b1 = "begin_tx e (trace st) Src ReadOnlySerializableDeferrable"
  let ?st1 = "emit (BeginTx Src ReadOnlySerializableDeferrable ?b1) st"
  show ?thesis
  proof (cases ?b1)
    case (Some err)
    with assms have "r = Return (0, 0, Some (Wrap ''sync tx'' (Wrap ''begin src'' err)))"
      and "st' = ?st1" by (simp_all add: LoopSync_def syncTx_def Let_def)
    then show ?thesis using Some by (simp add: emit_def)
  next
    case b1: None
    let ?b2 = "begin_tx e (trace ?st1) Dst DefaultOptions"
    let ?st2 = "emit (BeginTx Dst DefaultOptions ?b2) ?st1"
    show ?thesis
    proof (cases ?b2)
      case (Some err)
      with assms b1 have "r = Return (0, 0, Some (Wrap ''sync tx'' (Wrap ''begin dst'' err)))"
        and "st' = emit (RollbackTx Src) ?st2" by (simp_all add: LoopSync_def syncTx_def Let_def)
      then show ?thesis using Some b1 by (simp add: emit_def)
    next
      case b2: None
      obtain r2 st3 where l: "LoopSync_tx e ?st2 = (r2, st3)" by force
      with assms b1 b2 have r: "r = r2" and st': "st' = emit (RollbackTx Src) (emit (RollbackTx Dst) st3)"
        by (simp_all add: LoopSync_def syncTx_def Let_def)
      from LoopSync_tx_cases[OF l] obtain sevs tl where
        x: "trace st3 = trace ?st2 @ sevs @ tl" "sevs \<noteq> []" "\<forall>ev\<in>set sevs. sync_event ev"
          "((tl = [] \<and> (\<exists>(ids :: int list) err.
                        r2 = Return (0, int (length ids), Some (Wrap ''sync change log'' err))))
        \<or> ((\<forall>ev\<in>set sevs. \<not> mismatch ev) \<and>
            ((tl = [] \<and> (\<exists>err. r2 = Panic err))
           \<or> (\<exists>(ids :: int list) err. tl = [CommitTx Src (Some err)]
                 \<and> r2 = Return (int (length ids), 0, Some (Wrap ''commit src'' err)))
           \<or> (\<exists>(ids :: int list) err. tl = [CommitTx Src None, CommitTx Dst (Some err)]
                 \<and> r2 = Return (0, int (length ids), Some (Wrap ''commit dst'' err)))
           \<or> (\<exists>ids res. tl = [CommitTx Src None, CommitTx Dst None,
                               Exec Src delete_change_log_query [IntArray ids] res]
                 \<and> r2 = Return (int (length ids), 0,
                        case res of Inl err \<Rightarrow> Some (Wrap ''update change log'' err) | Inr _ \<Rightarrow> None)))))"
        by blast
      have t: "trace st' = trace st @ BeginTx Src ReadOnlySerializableDeferrable None
               # BeginTx Dst DefaultOptions None # sevs @ tl @ [RollbackTx Dst, RollbackTx Src]"
        using st' x(1) b1 b2 by (simp add: emit_def)
      show ?thesis
        apply (rule disjI2)
        apply (rule disjI2)
        apply (rule exI[of _ sevs])
        apply (rule exI[of _ tl])
        using t x(2,3,4) unfolding r
        apply blast
        done
    qed
  qed
qed

lemma sync_events_phase: "\<forall>ev\<in>set sevs. sync_event ev \<Longrightarrow> \<forall>p\<in>set (map phase sevs). p = 2"
  by (auto simp: sync_event_phase)



lemma sync_events_no_Commit: "\<forall>ev\<in>set sevs. sync_event ev \<Longrightarrow> CommitTx d c \<notin> set sevs"
  using sync_event_not_Commit by blast




lemma mismatch_iff:
  "mismatch ev \<longleftrightarrow> (\<exists>q a m. ev = Exec Dst q [a] (Inr m) \<and> m \<noteq> int (arg_len a))"
proof (cases ev)
  case (Exec d q args res)
  then show ?thesis by (auto split: sum.splits list.splits)
qed simp_all

lemma one_row_short:
  "LoopSync short_env tracking_state =
     (Return (0, 1, Some (Wrap ''sync change log'' (Wrap ''apply inserts''
        (Msgf ''mismatch: got %d rows affected; expected %d'' [0, 1])))),
      \<lparr>trace =
        [BeginTx Src ReadOnlySerializableDeferrable None,
         BeginTx Dst DefaultOptions None,
         ReadChangeLog change_log_query (Inr [(1, ''a'', ''7'')]),
         Exec Dst ''SET CONSTRAINTS ALL DEFERRED'' [] (Inr 0),
         Query ''select a'' (StringArray [''7'']) (QRows [(''7'', ''{}'')] None),
         Exec Dst ''insert a'' [JSONArray [''{}'']] (Inr 0),
         RollbackTx Dst,
         RollbackTx Src],
       rt = \<lparr>tables = [text_table], rowIDs = {(''a'', ''8'')}, stagedInserts = [(''a'', ''7'')],
            stagedDeletes = []\<rparr>\<rparr>)"
  by (simp add: LoopSync_def LoopSync_tx_def syncTx_def syncChangeLog_def rt_fetch_def
      fetch_row_def fetch_id_def rt_apply_def json_Marshal_def Table_IDs_def rt_Exists_def rt_Insert_def
      short_env_def one_row_env_def quiet_env_def tracking_state_def text_table_def emit_def batch_size_def
      scan_change_def scan_init_def Let_def)




text \<open>
  Claim C5. If in a drain iteration a statement that applies a batch to the destination
  reports a number of affected rows other than the size of the batch, \<^verbatim>\<open>LoopSync\<close>
  returns the error of \<^verbatim>\<open>syncChangeLog\<close> with no row counted as processed, the
  destination transaction is never committed, and it is rolled back.
\<close>

theorem LoopSync_count_mismatch:
  assumes "LoopSync e st = (r, st')"
  shows "\<exists>evs. trace st' = trace st @ evs \<and>
     ((\<exists>q a m. Exec Dst q [a] (Inr m) \<in> set evs \<and> m \<noteq> int (arg_len a)) \<longrightarrow>
        (\<exists>pend err. r = Return (0, pend, Some (Wrap ''sync change log'' err)))
        \<and> (\<forall>c. CommitTx Dst c \<notin> set evs) \<and> RollbackTx Dst \<in> set evs)"
proof -
  have failed: ?thesis
    if t: "trace st' = trace st @ BeginTx Src ReadOnlySerializableDeferrable None
               # BeginTx Dst DefaultOptions None # sevs @ [] @ [RollbackTx Dst, RollbackTx Src]"
      and s: "\<forall>ev\<in>set sevs. sync_event ev"
      and r: "r = Return (0, pend, Some (Wrap ''sync change log'' err))"
    for sevs pend err
  proof -
    have "CommitTx Dst c \<notin> set sevs" for c by (rule sync_events_no_Commit[OF s])
    then have "\<forall>c. CommitTx Dst c \<notin> set (BeginTx Src ReadOnlySerializableDeferrable None
               # BeginTx Dst DefaultOptions None # sevs @ [] @ [RollbackTx Dst, RollbackTx Src])"
      by simp
    moreover have "RollbackTx Dst \<in> set (BeginTx Src ReadOnlySerializableDeferrable None
               # BeginTx Dst DefaultOptions None # sevs @ [] @ [RollbackTx Dst, RollbackTx Src])"
      by simp
    ultimately show ?thesis using t r by blast
  qed
  have matched: ?thesis
    if t: "trace st' = trace st @ BeginTx Src ReadOnlySerializableDeferrable None
               # BeginTx Dst DefaultOptions None # sevs @ tl @ [RollbackTx Dst, RollbackTx Src]"
      and s: "\<forall>ev\<in>set sevs. \<not> mismatch ev"
      and tl: "\<forall>ev\<in>set tl. \<not> mismatch ev"
    for sevs tl
  proof -
    have "\<forall>ev\<in>set (BeginTx Src ReadOnlySerializableDeferrable None
               # BeginTx Dst DefaultOptions None # sevs @ tl @ [RollbackTx Dst, RollbackTx Src]).
            \<not> mismatch ev"
      using s tl by auto
    then have "\<not> (\<exists>q a m. Exec Dst q [a] (Inr m) \<in> set (BeginTx Src ReadOnlySerializableDeferrable None
               # BeginTx Dst DefaultOptions None # sevs @ tl @ [RollbackTx Dst, RollbackTx Src])
            \<and> m \<noteq> int (arg_len a))"
      unfolding mismatch_iff by blast
    with t show ?thesis by blast
  qed
  from LoopSync_cases[OF assms] show ?thesis
  proof (elim disjE exE conjE, goal_cases)
    case (1 err)
    then show ?case by simp
  next
    case (2 err)
    then show ?case by simp
  next
    case (3 sevs tl ids err)
    then show ?case by (intro failed[of sevs "int (length ids)" err]) simp_all
  next
    case (4 sevs tl err)
    then show ?case by (intro matched[of sevs tl]) simp_all
  next
    case (5 sevs tl ids err)
    then show ?case by (intro matched[of sevs tl]) simp_all
  next
    case (6 sevs tl ids err)
    then show ?case by (intro matched[of sevs tl]) simp_all
  next
    case (7 sevs tl ids res)
    then show ?case by (intro matched[of sevs tl]) simp_all
  qed
qed


theorem LoopSync_count_mismatch_witness:
  "Exec Dst ''insert a'' [JSONArray [''{}'']] (Inr 0) \<in> set (trace (snd (LoopSync short_env tracking_state)))
   \<and> (0 :: int) \<noteq> int (arg_len (JSONArray [''{}'']))
   \<and> (\<exists>pend err. fst (LoopSync short_env tracking_state)
          = Return (0, pend, Some (Wrap ''sync change log'' err)))
   \<and> CommitTx Dst None \<notin> set (trace (snd (LoopSync short_env tracking_state)))
   \<and> RollbackTx Dst \<in> set (trace (snd (LoopSync short_env tracking_state)))"
proof -
  let ?r = "fst (LoopSync short_env tracking_state)"
  let ?st' = "snd (LoopSync short_env tracking_state)"
  have run: "LoopSync short_env tracking_state = (?r, ?st')" by simp
  have m: "Exec Dst ''insert a'' [JSONArray [''{}'']] (Inr 0) \<in> set (trace ?st')"
    by (simp add: one_row_short)
  have n: "(0 :: int) \<noteq> int (arg_len (JSONArray [''{}'']))" by simp
  from LoopSync_count_mismatch[OF run] obtain evs where
    evs: "trace ?st' = trace tracking_state @ evs"
      "(\<exists>q a m. Exec Dst q [a] (Inr m) \<in> set evs \<and> m \<noteq> int (arg_len a)) \<longrightarrow>
        (\<exists>pend err. ?r = Return (0, pend, Some (Wrap ''sync change log'' err)))
        \<and> (\<forall>c. CommitTx Dst c \<notin> set evs) \<and> RollbackTx Dst \<in> set evs" by blast
  have e: "evs = trace ?st'" using evs(1) by (simp add: tracking_state_def)
  from m n have "\<exists>q a m. Exec Dst q [a] (Inr m) \<in> set (trace ?st') \<and> m \<noteq> int (arg_len a)"
    by blast
  with evs(2) e have "(\<exists>pend err. ?r = Return (0, pend, Some (Wrap ''sync change log'' err)))
        \<and> (\<forall>c. CommitTx Dst c \<notin> set (trace ?st')) \<and> RollbackTx Dst \<in> set (trace ?st')"
    by blast
  with m n show ?thesis by blast
qed

section \<open>The converge loop\<close>

text \<open>
  Claim C4 fails on the code. One change is pending; \<^verbatim>\<open>syncChangeLog\<close> succeeds, then
  the commit of the source transaction fails. No transaction has been committed: the
  destination transaction is rolled back. \<^verbatim>\<open>LoopSync\<close> returns the error with
  \<open>ok = 1\<close>, and \<^verbatim>\<open>SyncChanges\<close> does not continue: it rolls the tracker back, logs
  the error and aborts with \<open>sync failure (commit without record)\<close>.
\<close>

theorem SyncChanges_aborts_without_commit:
  "SyncChanges src_commit_fails_env tracking_state =
     Some (Return (Some (Wrap ''sync failure (commit without record)''
                     (Wrap ''commit src'' (External ''connection lost'')))),
      \<lparr>trace =
        [BeginTx Src ReadOnlySerializableDeferrable None,
         BeginTx Dst DefaultOptions None,
         ReadChangeLog change_log_query (Inr [(1, ''a'', ''7'')]),
         Exec Dst ''SET CONSTRAINTS ALL DEFERRED'' [] (Inr 0),
         Query ''select a'' (StringArray [''7'']) (QRows [(''7'', ''{}'')] None),
         Exec Dst ''insert a'' [JSONArray [''{}'']] (Inr 1),
         CommitTx Src (Some (External ''connection lost'')),
         RollbackTx Dst,
         RollbackTx Src,
         Log (Wrap ''commit src'' (External ''connection lost''))],
       rt = \<lparr>tables = [text_table], rowIDs = {(''a'', ''8'')}, stagedInserts = [],
            stagedDeletes = []\<rparr>\<rparr>)"
  by (subst SyncChanges.simps)
     (simp add: SyncChanges_iter_def LoopSync_def LoopSync_tx_def syncTx_def syncChangeLog_def
      rt_fetch_def fetch_row_def fetch_id_def rt_apply_def json_Marshal_def Table_IDs_def
      rt_Exists_def rt_Insert_def rt_Rollback_def
      src_commit_fails_env_def one_row_env_def quiet_env_def tracking_state_def text_table_def
      emit_def batch_size_def scan_change_def scan_init_def Let_def)

lemma LoopSync_phases:
  assumes "LoopSync e st = (r, st')"
  shows "\<exists>evs. trace st' = trace st @ evs \<and> (\<forall>ev\<in>set evs. phase ev < 7)"
proof -
  have tx: ?thesis
    if t: "trace st' = trace st @ BeginTx Src ReadOnlySerializableDeferrable None
               # BeginTx Dst DefaultOptions None # sevs @ tl @ [RollbackTx Dst, RollbackTx Src]"
      and s: "\<forall>ev\<in>set sevs. sync_event ev"
      and tl: "\<forall>ev\<in>set tl. phase ev < 7"
    for sevs tl
  proof -
    have "\<forall>ev\<in>set sevs. phase ev < 7" using s sync_event_phase by fastforce
    with tl have "\<forall>ev\<in>set (BeginTx Src ReadOnlySerializableDeferrable None
               # BeginTx Dst DefaultOptions None # sevs @ tl @ [RollbackTx Dst, RollbackTx Src]).
               phase ev < 7" by auto
    with t show ?thesis by blast
  qed
  from LoopSync_cases[OF assms] show ?thesis
  proof (elim disjE exE conjE, goal_cases)
    case (1 err)
    then show ?case by simp
  next
    case (2 err)
    then show ?case by simp
  next
    case (3 sevs tl ids err)
    then show ?case by (intro tx[of sevs tl]) simp_all
  next
    case (4 sevs tl err)
    then show ?case by (intro tx[of sevs tl]) simp_all
  next
    case (5 sevs tl ids err)
    then show ?case by (intro tx[of sevs tl]) simp_all
  next
    case (6 sevs tl ids err)
    then show ?case by (intro tx[of sevs tl]) simp_all
  next
    case (7 sevs tl ids res)
    then show ?case by (intro tx[of sevs tl]) simp_all
  qed
qed

text \<open>
  An iteration of the converge loop aborts in two situations only: the commit of the
  source failed, and then nothing was committed; or both commits succeeded and the
  deletion from the change log failed.
\<close>

lemma SyncChanges_iter_abort_cases:
  assumes "SyncChanges_iter e st = Inl (Return (Some err), st')"
  shows "\<exists>evs. trace st' = trace st @ evs \<and>
     ((\<exists>c. CommitTx Src (Some c) \<in> set evs \<and> (\<forall>d. CommitTx d None \<notin> set evs))
      \<or> (CommitTx Src None \<in> set evs \<and> CommitTx Dst None \<in> set evs
          \<and> (\<exists>q a x. Exec Src q a (Inl x) \<in> set evs)))"
proof -
  obtain lr st1 where l: "LoopSync e st = (lr, st1)" by force
  from assms l obtain n pend e0 where
    lr: "lr = Return (n, pend, Some e0)" "0 < n" and st': "st' = (emit (Log e0) st1)\<lparr>rt := rt_Rollback (rt (emit (Log e0) st1))\<rparr>"
    by (auto simp: SyncChanges_iter_def Let_def split: outcome.splits option.splits if_splits)
  have t: "trace st' = trace st1 @ [Log e0]" using st' by (simp add: emit_def)
  from LoopSync_cases[OF l] show ?thesis
  proof (elim disjE exE conjE, goal_cases)
    case (1 err)
    with lr show ?case by simp
  next
    case (2 err)
    with lr show ?case by simp
  next
    case (3 sevs tl ids err)
    with lr show ?case by simp
  next
    case (4 sevs tl err)
    with lr show ?case by simp
  next
    case (5 sevs tl ids c)
    have "CommitTx d None \<notin> set sevs" for d by (rule sync_events_no_Commit[OF 5(3)])
    then have "\<forall>d. CommitTx d None \<notin> set (BeginTx Src ReadOnlySerializableDeferrable None
               # BeginTx Dst DefaultOptions None # sevs @ [CommitTx Src (Some c)]
               @ [RollbackTx Dst, RollbackTx Src] @ [Log e0])" by simp
    moreover have "CommitTx Src (Some c) \<in> set (BeginTx Src ReadOnlySerializableDeferrable None
               # BeginTx Dst DefaultOptions None # sevs @ [CommitTx Src (Some c)]
               @ [RollbackTx Dst, RollbackTx Src] @ [Log e0])" by simp
    moreover have "trace st' = trace st @ (BeginTx Src ReadOnlySerializableDeferrable None
               # BeginTx Dst DefaultOptions None # sevs @ [CommitTx Src (Some c)]
               @ [RollbackTx Dst, RollbackTx Src] @ [Log e0])" using t 5(1,5) by simp
    ultimately show ?case by blast
  next
    case (6 sevs tl ids err)
    with lr show ?case by simp
  next
    case (7 sevs tl ids res)
    from 7(6) lr obtain x where x: "res = Inl x" by (cases res) auto
    let ?evs = "BeginTx Src ReadOnlySerializableDeferrable None
               # BeginTx Dst DefaultOptions None # sevs @ [CommitTx Src None, CommitTx Dst None,
                  Exec Src delete_change_log_query [IntArray ids] (Inl x)]
               @ [RollbackTx Dst, RollbackTx Src] @ [Log e0]"
    have "trace st' = trace st @ ?evs" using t 7(1,5) x by simp
    moreover have "CommitTx Src None \<in> set ?evs" "CommitTx Dst None \<in> set ?evs"
      "Exec Src delete_change_log_query [IntArray ids] (Inl x) \<in> set ?evs" by simp_all
    ultimately show ?case by blast
  qed
qed

text \<open>
  A drain iteration over a table with an integer key panics when a pending row id is not
  a number; the deferred rollbacks run, nothing is committed.
\<close>

lemma LoopSync_panics_on_non_integer_id:
  "LoopSync bad_id_env int_state =
     (Panic (NumError ''x''),
      int_state\<lparr>trace :=
        [BeginTx Src ReadOnlySerializableDeferrable None,
         BeginTx Dst DefaultOptions None,
         ReadChangeLog change_log_query (Inr [(1, ''a'', ''x'')]),
         Exec Dst ''SET CONSTRAINTS ALL DEFERRED'' [] (Inr 0),
         RollbackTx Dst,
         RollbackTx Src]\<rparr>)"
  by (simp add: LoopSync_def LoopSync_tx_def syncTx_def syncChangeLog_def rt_fetch_def
      Table_IDs_def intIDs_def Atoi_def int_syntax_def is_digit_def
      bad_id_env_def quiet_env_def int_state_def int_table_def emit_def batch_size_def
      scan_change_def scan_init_def Let_def)

section \<open>The final sync\<close>

lemma extends_refl: "extends st st"
  by (simp add: extends_def)

lemma extends_trans: "extends st st1 \<Longrightarrow> extends st1 st2 \<Longrightarrow> extends st st2"
  by (fastforce simp: extends_def)

lemma extends_emit: "(\<And>s. ev \<noteq> ReadState s) \<Longrightarrow> extends st (emit ev st)"
  by (simp add: extends_def emit_def)

lemma extends_rt: "extends st st' \<Longrightarrow> extends st (st'\<lparr>rt := r\<rparr>)"
  by (simp add: extends_def)

lemma phase_not_ReadState: "phase ev < 7 \<Longrightarrow> ev \<noteq> ReadState s"
  by (cases ev) auto

lemma LoopSync_extends: "LoopSync e st = (r, st') \<Longrightarrow> extends st st'"
  using LoopSync_phases[of e st r st'] phase_not_ReadState unfolding extends_def by blast

lemma SyncChanges_iter_extends:
  "SyncChanges_iter e st = Inl (r, st') \<Longrightarrow> extends st st'"
  "SyncChanges_iter e st = Inr st' \<Longrightarrow> extends st st'"
proof -
  obtain lr st1 where l: "LoopSync e st = (lr, st1)" by force
  have e1: "extends st st1" by (rule LoopSync_extends[OF l])
  have e2: "extends st1 (emit (Log err) st1\<lparr>rt := x\<rparr>)" for err x
    by (rule extends_rt, rule extends_emit) simp
  have e3: "extends st1 (st1\<lparr>rt := x\<rparr>)" for x
    by (rule extends_rt, rule extends_refl)
  show "extends st st'" if a: "SyncChanges_iter e st = Inl (r, st')"
  proof -
    have "extends st1 st'" using a l e2 e3
      by (auto simp: SyncChanges_iter_def Let_def extends_refl
          split: outcome.splits option.splits if_splits)
    with e1 show ?thesis by (rule extends_trans)
  qed
  show "extends st st'" if a: "SyncChanges_iter e st = Inr st'"
  proof -
    have "extends st1 st'" using a l e2 e3
      by (auto simp: SyncChanges_iter_def Let_def extends_refl
          split: outcome.splits option.splits if_splits)
    with e1 show ?thesis by (rule extends_trans)
  qed
qed

lemma SyncChanges_extends:
  assumes "SyncChanges e st = Some y"
  shows "extends st (snd y)"
proof (rule SyncChanges.raw_induct[where P = "\<lambda>e st y. extends st (snd y)", OF _ assms])
  fix sc :: "env \<Rightarrow> state \<Rightarrow> (error option outcome \<times> state) option" and e st y
  assume IH: "\<And>e st y. sc e st = Some y \<Longrightarrow> extends st (snd y)"
    and step: "(case ctx_Err e (trace st) of
                  None \<Rightarrow> (case SyncChanges_iter e st of Inl r \<Rightarrow> Some r | Inr st1 \<Rightarrow> sc e st1)
                | Some err \<Rightarrow> Some (Return (Some err), st)) = Some y"
  show "extends st (snd y)"
  proof (cases "ctx_Err e (trace st)")
    case (Some err)
    with step show ?thesis by (auto simp: extends_refl)
  next
    case None
    show ?thesis
    proof (cases "SyncChanges_iter e st")
      case (Inl x)
      with step None have "y = x" by simp
      with Inl SyncChanges_iter_extends(1)[of e st "fst x" "snd x"] show ?thesis by simp
    next
      case (Inr st1)
      with step None have "sc e st1 = Some y" by simp
      from IH[OF this] SyncChanges_iter_extends(2)[OF Inr] show ?thesis
        by (blast intro: extends_trans)
    qed
  qed
qed

lemma read_sequences_extends:
  "read_sequences e names setSeq st = (x, st') \<Longrightarrow> extends st st'"
proof (induction names arbitrary: setSeq st)
  case Nil
  then show ?case by (simp add: extends_refl)
next
  case (Cons name names)
  let ?r = "sequence_value e (trace st) name"
  let ?st1 = "emit (ReadSequence name ?r) st"
  have e1: "extends st ?st1" by (rule extends_emit) simp
  show ?case
  proof (cases ?r)
    case (Inl err)
    with Cons.prems have "st' = ?st1" by (simp add: Let_def)
    with e1 show ?thesis by simp
  next
    case (Inr v)
    obtain lastv called where v: "v = (lastv, called)" by (cases v) auto
    with Cons.prems Inr have "read_sequences e names (setSeq @ [(name, lastv, called)]) ?st1 = (x, st')"
      by (simp add: Let_def)
    from Cons.IH[OF this] e1 show ?thesis by (blast intro: extends_trans)
  qed
qed

lemma syncChangeLog_extends: "syncChangeLog e st = (r, st') \<Longrightarrow> extends st st'"
proof -
  assume a: "syncChangeLog e st = (r, st')"
  from syncChangeLog_trace[OF a] obtain evs where
    "trace st' = trace st @ ReadChangeLog change_log_query (change_log e (trace st)) # evs"
    "\<forall>ev\<in>set evs. sync_event ev" by blast
  moreover have "sync_event ev \<Longrightarrow> ev \<noteq> ReadState s" for ev s by (cases ev) auto
  ultimately show ?thesis unfolding extends_def by auto
qed

lemma FinalSync_cutover_extends:
  assumes "FinalSync_cutover e seqNames seqRead st = (r, st')"
  shows "extends st st'"
proof -
  let ?st0 = "emit (SendBatch Src seqRead) st"
  obtain x st4 where rs: "read_sequences e seqNames [] ?st0 = (x, st4)" by force
  have e0: "extends st ?st0" by (rule extends_emit) simp
  have e4: "extends st st4" using read_sequences_extends[OF rs] e0 by (blast intro: extends_trans)
  have "extends st4 st'"
    using assms rs
    by (auto simp: FinalSync_cutover_def EnableTriggers_def Let_def emit_def extends_def
        split: sum.splits option.splits prod.splits)
  with e4 show ?thesis by (blast intro: extends_trans)
qed

lemma sync_event_not_ReadState: "sync_event ev \<Longrightarrow> ev \<noteq> ReadState s"
  by (cases ev) auto

lemma FinalSync_tx_cases:
  assumes "FinalSync_tx e sn sr st = (r, st')"
  shows "(\<exists>err. trace st' = trace st @ [AdvisoryLock (Some err)])
   \<or> (\<exists>err. trace st' = trace st @ [AdvisoryLock None, ReadState (Inl err)])
   \<or> (trace st' = trace st @ [AdvisoryLock None, ReadState (Inr ''use_next_db'')]
        \<and> r = Return (Some ErrDone))
   \<or> (trace st' = trace st @ [AdvisoryLock None, ReadState (Inr ''idle'')]
        \<and> r = Return (Some (Msg ''not running'')))
   \<or> (\<exists>stat rows post. stat \<noteq> ''use_next_db'' \<and> stat \<noteq> ''idle''
        \<and> trace st' = trace st @ [AdvisoryLock None, ReadState (Inr stat)]
             @ ReadChangeLog change_log_query rows # post
        \<and> (\<forall>ev\<in>set post. \<forall>s. ev \<noteq> ReadState s))"
proof -
  let ?l = "advisory_lock e (trace st)"
  let ?st1 = "emit (AdvisoryLock ?l) st"
  show ?thesis
  proof (cases ?l)
    case (Some err)
    with assms have "st' = ?st1" by (simp add: FinalSync_tx_def Let_def)
    with Some show ?thesis by (simp add: emit_def)
  next
    case l: None
    let ?s = "switchover_state e (trace ?st1)"
    let ?st2 = "emit (ReadState ?s) ?st1"
    have t2: "trace ?st2 = trace st @ [AdvisoryLock None, ReadState ?s]"
      using l by (simp add: emit_def)
    show ?thesis
    proof (cases ?s)
      case (Inl err)
      with assms l have "st' = ?st2" by (simp add: FinalSync_tx_def Let_def)
      with t2 Inl show ?thesis by simp
    next
      case (Inr stat)
      show ?thesis
      proof (cases "stat = ''use_next_db'' \<or> stat = ''idle''")
        case True
        with assms l Inr have "st' = ?st2"
          and "stat = ''use_next_db'' \<Longrightarrow> r = Return (Some ErrDone)"
          and "stat = ''idle'' \<Longrightarrow> r = Return (Some (Msg ''not running''))"
          by (auto simp: FinalSync_tx_def Let_def)
        with t2 Inr True show ?thesis by auto
      next
        case False
        obtain sr' st3 where sy: "syncChangeLog e ?st2 = (sr', st3)" by force
        from syncChangeLog_trace[OF sy] obtain evs where
          evs: "trace st3 = trace ?st2 @ ReadChangeLog change_log_query (change_log e (trace ?st2)) # evs"
            "\<forall>ev\<in>set evs. sync_event ev" by blast
        have nr: "\<forall>ev\<in>set evs. \<forall>s. ev \<noteq> ReadState s"
          using evs(2) sync_event_not_ReadState by blast
        have "extends st3 st'"
        proof (cases sr')
          case (Panic err)
          with assms l Inr False sy have "st' = st3" by (simp add: FinalSync_tx_def Let_def)
          then show ?thesis by (simp add: extends_refl)
        next
          case (Return p)
          obtain ids oe where p: "p = (ids, oe)" by (cases p) auto
          show ?thesis
          proof (cases oe)
            case (Some err)
            with assms l Inr False sy Return p have "st' = st3"
              by (simp add: FinalSync_tx_def Let_def)
            then show ?thesis by (simp add: extends_refl)
          next
            case None
            with assms l Inr False sy Return p
            have "FinalSync_cutover e sn sr st3 = (r, st')"
              by (simp add: FinalSync_tx_def Let_def)
            then show ?thesis by (rule FinalSync_cutover_extends)
          qed
        qed
        then obtain evs2 where
          evs2: "trace st' = trace st3 @ evs2" "\<forall>ev\<in>set evs2. \<forall>s. ev \<noteq> ReadState s"
          unfolding extends_def by blast
        have "trace st' = trace st @ [AdvisoryLock None, ReadState (Inr stat)]
             @ ReadChangeLog change_log_query (change_log e (trace ?st2)) # (evs @ evs2)"
          using evs2(1) evs(1) t2 Inr by simp
        moreover have "\<forall>ev\<in>set (evs @ evs2). \<forall>s. ev \<noteq> ReadState s"
          using nr evs2(2) by auto
        ultimately show ?thesis using False by blast
      qed
    qed
  qed
qed

lemma FinalSync_begin_cases:
  assumes "FinalSync_begin e sn sr st = (r, st')"
  shows "(\<exists>evs. trace st' = trace st @ evs \<and> (\<forall>ev\<in>set evs. \<forall>s. ev \<noteq> ReadState s))
   \<or> (trace st' = trace st @ [BeginTx Src DefaultOptions None, BeginTx Dst DefaultOptions None,
          AdvisoryLock None, ReadState (Inr ''use_next_db''), RollbackTx Dst, RollbackTx Src]
        \<and> r = Return (Some ErrDone))
   \<or> (trace st' = trace st @ [BeginTx Src DefaultOptions None, BeginTx Dst DefaultOptions None,
          AdvisoryLock None, ReadState (Inr ''idle''), RollbackTx Dst, RollbackTx Src]
        \<and> r = Return (Some (Msg ''not running'')))
   \<or> (\<exists>s post. trace st' = trace st @ [BeginTx Src DefaultOptions None, BeginTx Dst DefaultOptions None,
          AdvisoryLock None, ReadState s] @ post
        \<and> (\<forall>stat. s = Inr stat \<longrightarrow> stat \<noteq> ''use_next_db'' \<and> stat \<noteq> ''idle''
              \<and> (\<exists>rows rest. post = ReadChangeLog change_log_query rows # rest))
        \<and> (\<forall>ev\<in>set post. \<forall>s. ev \<noteq> ReadState s))"
proof -
  let ?b = "begin_tx e (trace st) Src DefaultOptions"
  let ?st1 = "emit (BeginTx Src DefaultOptions ?b) st"
  show ?thesis
  proof (cases ?b)
    case (Some err)
    with assms have "st' = ?st1" by (simp add: FinalSync_begin_def Let_def)
    then have "trace st' = trace st @ [BeginTx Src DefaultOptions ?b]" by (simp add: emit_def)
    then show ?thesis by auto
  next
    case b: None
    let ?b2 = "begin_tx e (trace ?st1) Dst DefaultOptions"
    let ?st2 = "emit (BeginTx Dst DefaultOptions ?b2) ?st1"
    show ?thesis
    proof (cases ?b2)
      case (Some err)
      with assms b have "st' = emit (RollbackTx Src) ?st2" by (simp add: FinalSync_begin_def Let_def)
      then have "trace st' = trace st @ [BeginTx Src DefaultOptions ?b, BeginTx Dst DefaultOptions ?b2,
          RollbackTx Src]" by (simp add: emit_def)
      then show ?thesis by auto
    next
      case b2: None
      have t2: "trace ?st2 = trace st @ [BeginTx Src DefaultOptions None, BeginTx Dst DefaultOptions None]"
        using b b2 by (simp add: emit_def)
      obtain r3 st3 where tx: "FinalSync_tx e sn sr ?st2 = (r3, st3)" by force
      with assms b b2 have "r = r3 \<and> st' = emit (RollbackTx Src) (emit (RollbackTx Dst) st3)"
        by (auto simp: FinalSync_begin_def Let_def)
      then have r: "r = r3"
        and st': "trace st' = trace st3 @ [RollbackTx Dst, RollbackTx Src]"
        by (simp_all add: emit_def)
      from FinalSync_tx_cases[OF tx] show ?thesis
      proof (elim disjE exE conjE, goal_cases)
        case (1 err)
        with st' t2 have "trace st' = trace st @ [BeginTx Src DefaultOptions None,
            BeginTx Dst DefaultOptions None, AdvisoryLock (Some err), RollbackTx Dst, RollbackTx Src]"
          by simp
        then show ?case by auto
      next
        case (2 err)
        with st' t2 have "trace st' = trace st @ [BeginTx Src DefaultOptions None,
            BeginTx Dst DefaultOptions None, AdvisoryLock None, ReadState (Inl err)]
            @ [RollbackTx Dst, RollbackTx Src]"
          by simp
        then show ?case by (intro disjI2) (rule exI[of _ "Inl err"], auto)
      next
        case 3
        with st' t2 r show ?case by simp
      next
        case 4
        with st' t2 r show ?case by simp
      next
        case (5 stat rows post)
        with st' t2 have "trace st' = trace st @ [BeginTx Src DefaultOptions None,
            BeginTx Dst DefaultOptions None, AdvisoryLock None, ReadState (Inr stat)]
            @ (ReadChangeLog change_log_query rows # post @ [RollbackTx Dst, RollbackTx Src])"
          by simp
        moreover have "\<forall>ev\<in>set (ReadChangeLog change_log_query rows # post
                        @ [RollbackTx Dst, RollbackTx Src]). \<forall>s. ev \<noteq> ReadState s"
          using 5 by auto
        ultimately show ?case using 5(1,2)
          by (intro disjI2) (rule exI[of _ "Inr stat"], blast)
      qed
    qed
  qed
qed

lemma FinalSync_cases:
  assumes "FinalSync e st = Some (r, st')"
  shows "\<exists>pre. (\<forall>ev\<in>set pre. \<forall>s. ev \<noteq> ReadState s) \<and>
    (trace st' = trace st @ pre
     \<or> (trace st' = trace st @ pre @ [ReadState (Inr ''use_next_db''), RollbackTx Dst, RollbackTx Src]
          \<and> r = Return (Some ErrDone))
     \<or> (trace st' = trace st @ pre @ [ReadState (Inr ''idle''), RollbackTx Dst, RollbackTx Src]
          \<and> r = Return (Some (Msg ''not running'')))
     \<or> (\<exists>s post. trace st' = trace st @ pre @ ReadState s # post
          \<and> (\<forall>stat. s = Inr stat \<longrightarrow> stat \<noteq> ''use_next_db'' \<and> stat \<noteq> ''idle''
                \<and> (\<exists>rows rest. post = ReadChangeLog change_log_query rows # rest))
          \<and> (\<forall>ev\<in>set post. \<forall>s. ev \<noteq> ReadState s)))"
proof -
  let ?n = "sequence_names e (trace st)"
  let ?st1 = "emit (ReadSequenceNames ?n) st"
  let ?q1 = "''set idle_in_transaction_session_timeout = 1000''"
  let ?q2 = "''set lock_timeout = 3000''"
  let ?t1 = "exec e (trace ?st1) Src ?q1 []"
  let ?st2 = "emit (Exec Src ?q1 [] ?t1) ?st1"
  let ?t2 = "exec e (trace ?st2) Src ?q2 []"
  let ?st3 = "emit (Exec Src ?q2 [] ?t2) ?st2"
  let ?p3 = "[ReadSequenceNames ?n, Exec Src ?q1 [] ?t1, Exec Src ?q2 [] ?t2]"
  have t3: "trace ?st3 = trace st @ ?p3" by (simp add: emit_def)
  have early: ?thesis if "trace st' = trace st @ pre" "set pre \<subseteq> set ?p3" for pre
  proof -
    from that(2) have "\<forall>ev\<in>set pre. \<forall>s. ev \<noteq> ReadState s" by auto
    with that(1) show ?thesis by blast
  qed
  show ?thesis
  proof (cases ?n)
    case (Inl err)
    with assms have "st' = ?st1" by (simp add: FinalSync_def Let_def)
    then show ?thesis by (intro early[of "[ReadSequenceNames ?n]"]) (simp_all add: emit_def)
  next
    case n: (Inr names)
    show ?thesis
    proof (cases ?t1)
      case (Inl err)
      with assms n have "st' = ?st2" by (simp add: FinalSync_def Let_def)
      then show ?thesis
        by (intro early[of "[ReadSequenceNames ?n, Exec Src ?q1 [] ?t1]"]) (simp_all add: emit_def)
    next
      case t1: (Inr m1)
      show ?thesis
      proof (cases ?t2)
        case (Inl err)
        with assms n t1 have "st' = ?st3" by (simp add: FinalSync_def Let_def)
        then show ?thesis by (intro early[of ?p3]) (simp_all add: emit_def)
      next
        case t2: (Inr m2)
        from assms n t1 t2 obtain y where sc: "SyncChanges e ?st3 = Some y"
          by (cases "SyncChanges e ?st3") (auto simp: FinalSync_def Let_def)
        obtain x st4 where y: "y = (x, st4)" by (cases y) auto
        from SyncChanges_extends[OF sc] y t3 obtain evs4 where
          evs4: "trace st4 = trace st @ ?p3 @ evs4" "\<forall>ev\<in>set evs4. \<forall>s. ev \<noteq> ReadState s"
          unfolding extends_def by auto
        have nr4: "\<forall>ev\<in>set (?p3 @ evs4). \<forall>s. ev \<noteq> ReadState s" using evs4(2) by auto
        show ?thesis
        proof (cases "x = Return None")
          case False
          with assms n t1 t2 sc y have "st' = st4"
            by (auto simp: FinalSync_def Let_def split: outcome.splits option.splits)
          with evs4(1) nr4 show ?thesis by blast
        next
          case True
          with assms n t1 t2 sc y obtain sn sr where
            fb: "FinalSync_begin e sn sr st4 = (r, st')"
            by (auto simp: FinalSync_def Let_def)
          from FinalSync_begin_cases[OF fb] show ?thesis
          proof (elim disjE exE conjE, goal_cases)
            case (1 evs)
            with evs4(1) have "trace st' = trace st @ (?p3 @ evs4 @ evs)" by simp
            moreover have "\<forall>ev\<in>set (?p3 @ evs4 @ evs). \<forall>s. ev \<noteq> ReadState s"
              using nr4 1(2) by auto
            ultimately show ?case by blast
          next
            case 2
            let ?pre = "?p3 @ evs4 @ [BeginTx Src DefaultOptions None, BeginTx Dst DefaultOptions None,
              AdvisoryLock None]"
            from 2 evs4(1) have "trace st' = trace st @ ?pre
                @ [ReadState (Inr ''use_next_db''), RollbackTx Dst, RollbackTx Src]" by simp
            moreover have "\<forall>ev\<in>set ?pre. \<forall>s. ev \<noteq> ReadState s" using nr4 by auto
            ultimately show ?case using 2(2) by blast
          next
            case 3
            let ?pre = "?p3 @ evs4 @ [BeginTx Src DefaultOptions None, BeginTx Dst DefaultOptions None,
              AdvisoryLock None]"
            from 3 evs4(1) have "trace st' = trace st @ ?pre
                @ [ReadState (Inr ''idle''), RollbackTx Dst, RollbackTx Src]" by simp
            moreover have "\<forall>ev\<in>set ?pre. \<forall>s. ev \<noteq> ReadState s" using nr4 by auto
            ultimately show ?case using 3(2) by blast
          next
            case (4 s post)
            let ?pre = "?p3 @ evs4 @ [BeginTx Src DefaultOptions None, BeginTx Dst DefaultOptions None,
              AdvisoryLock None]"
            from 4(1) evs4(1) have "trace st' = trace st @ ?pre @ ReadState s # post" by simp
            moreover have "\<forall>ev\<in>set ?pre. \<forall>s. ev \<noteq> ReadState s" using nr4 by auto
            ultimately show ?case using 4(2,3) by blast
          qed
        qed
      qed
    qed
  qed
qed

lemma only_ReadState:
  assumes "ReadState x \<in> set (pre @ ReadState s # post)"
    "\<forall>ev\<in>set pre. \<forall>s. ev \<noteq> ReadState s" "\<forall>ev\<in>set post. \<forall>s. ev \<noteq> ReadState s"
  shows "x = s"
  using assms by auto

text \<open>
  Claim C6, as amended. When \<^verbatim>\<open>FinalSync\<close> reads the switchover state inside its critical
  section, it reads it once. If the state is \<open>use_next_db\<close> it returns the sentinel
  \<^verbatim>\<open>ErrDone\<close> and after the read only rolls back its two open transactions; if the
  state is \<open>idle\<close> it returns the error \<open>not running\<close>, likewise; otherwise it goes on
  with \<^verbatim>\<open>syncChangeLog\<close>. What precedes the read, the catch-up \<^verbatim>\<open>SyncChanges\<close> above
  all, is not undone by the sentinel.
\<close>

theorem FinalSync_state_read:
  assumes "FinalSync e st = Some (r, st')"
  shows "\<exists>evs. trace st' = trace st @ evs \<and>
    (\<forall>stat. ReadState (Inr stat) \<in> set evs \<longrightarrow>
       (\<exists>pre post. evs = pre @ ReadState (Inr stat) # post
          \<and> (\<forall>ev\<in>set pre. \<forall>s. ev \<noteq> ReadState s) \<and> (\<forall>ev\<in>set post. \<forall>s. ev \<noteq> ReadState s)
          \<and> (stat = ''use_next_db'' \<longrightarrow>
                r = Return (Some ErrDone) \<and> post = [RollbackTx Dst, RollbackTx Src])
          \<and> (stat = ''idle'' \<longrightarrow>
                r = Return (Some (Msg ''not running'')) \<and> post = [RollbackTx Dst, RollbackTx Src])
          \<and> (stat \<noteq> ''use_next_db'' \<and> stat \<noteq> ''idle'' \<longrightarrow>
                (\<exists>rows rest. post = ReadChangeLog change_log_query rows # rest))))"
proof -
  from FinalSync_cases[OF assms] obtain pre where
    pre: "\<forall>ev\<in>set pre. \<forall>s. ev \<noteq> ReadState s"
    and c: "trace st' = trace st @ pre
     \<or> (trace st' = trace st @ pre @ [ReadState (Inr ''use_next_db''), RollbackTx Dst, RollbackTx Src]
          \<and> r = Return (Some ErrDone))
     \<or> (trace st' = trace st @ pre @ [ReadState (Inr ''idle''), RollbackTx Dst, RollbackTx Src]
          \<and> r = Return (Some (Msg ''not running'')))
     \<or> (\<exists>s post. trace st' = trace st @ pre @ ReadState s # post
          \<and> (\<forall>stat. s = Inr stat \<longrightarrow> stat \<noteq> ''use_next_db'' \<and> stat \<noteq> ''idle''
                \<and> (\<exists>rows rest. post = ReadChangeLog change_log_query rows # rest))
          \<and> (\<forall>ev\<in>set post. \<forall>s. ev \<noteq> ReadState s))" by blast
  have shape: ?thesis
    if t: "trace st' = trace st @ pre @ ReadState s # post"
      and post: "\<forall>ev\<in>set post. \<forall>s. ev \<noteq> ReadState s"
      and u: "s = Inr ''use_next_db'' \<Longrightarrow> r = Return (Some ErrDone) \<and> post = [RollbackTx Dst, RollbackTx Src]"
      and i: "s = Inr ''idle'' \<Longrightarrow> r = Return (Some (Msg ''not running'')) \<and> post = [RollbackTx Dst, RollbackTx Src]"
      and o: "\<And>stat. s = Inr stat \<Longrightarrow> stat \<noteq> ''use_next_db'' \<Longrightarrow> stat \<noteq> ''idle'' \<Longrightarrow>
                (\<exists>rows rest. post = ReadChangeLog change_log_query rows # rest)"
    for s post
  proof -
    have "\<exists>pre' post'. pre @ ReadState s # post = pre' @ ReadState (Inr stat) # post'
          \<and> (\<forall>ev\<in>set pre'. \<forall>s. ev \<noteq> ReadState s) \<and> (\<forall>ev\<in>set post'. \<forall>s. ev \<noteq> ReadState s)
          \<and> (stat = ''use_next_db'' \<longrightarrow>
                r = Return (Some ErrDone) \<and> post' = [RollbackTx Dst, RollbackTx Src])
          \<and> (stat = ''idle'' \<longrightarrow>
                r = Return (Some (Msg ''not running'')) \<and> post' = [RollbackTx Dst, RollbackTx Src])
          \<and> (stat \<noteq> ''use_next_db'' \<and> stat \<noteq> ''idle'' \<longrightarrow>
                (\<exists>rows rest. post' = ReadChangeLog change_log_query rows # rest))"
      if m: "ReadState (Inr stat) \<in> set (pre @ ReadState s # post)" for stat
    proof -
      from only_ReadState[OF m pre post] have s: "s = Inr stat" by simp
      show ?thesis
        apply (rule exI[of _ pre])
        apply (rule exI[of _ post])
        using s pre post u i o
        apply auto
        done
    qed
    with t show ?thesis by blast
  qed
  from c show ?thesis
  proof (elim disjE exE conjE, goal_cases)
    case 1
    with pre show ?case by blast
  next
    case 2
    then show ?case by (intro shape[of "Inr ''use_next_db''" "[RollbackTx Dst, RollbackTx Src]"]) auto
  next
    case 3
    then show ?case by (intro shape[of "Inr ''idle''" "[RollbackTx Dst, RollbackTx Src]"]) auto
  next
    case (4 s post)
    then show ?case by (intro shape[of s post]) auto
  qed
qed

section \<open>A cutover that finds the switchover done\<close>

lemmas drain_defs = LoopSync_def LoopSync_tx_def syncTx_def syncChangeLog_def
      rt_fetch_def fetch_row_def fetch_id_def rt_apply_def json_Marshal_def Table_IDs_def
      rt_Exists_def rt_Insert_def rt_Rollback_def rt_Commit_def
      emit_def batch_size_def scan_change_def scan_init_def Let_def

lemma done_iter1:
  "SyncChanges_iter done_env \<lparr>trace = done_prelude, rt = rt tracking_state\<rparr> =
     Inr \<lparr>trace = done_prelude @ done_drain1, rt = done_tracker\<rparr>"
  by (simp add: SyncChanges_iter_def drain_defs done_env_def one_row_env_def quiet_env_def
      tracking_state_def text_table_def done_prelude_def done_drain1_def done_tracker_def
      delete_change_log_query_def insert_commute)

lemma done_iter2:
  "SyncChanges_iter done_env \<lparr>trace = done_prelude @ done_drain1, rt = done_tracker\<rparr> =
     Inl (Return None, \<lparr>trace = done_prelude @ done_drain1 @ done_drain2, rt = done_tracker\<rparr>)"
  by (simp add: SyncChanges_iter_def drain_defs done_env_def one_row_env_def quiet_env_def
      text_table_def done_prelude_def done_drain1_def done_drain2_def done_tracker_def
      delete_change_log_query_def)

lemma done_ctx: "ctx_Err done_env tr = None"
  by (simp add: done_env_def one_row_env_def quiet_env_def)

lemma done_sync:
  "SyncChanges done_env \<lparr>trace = done_prelude, rt = rt tracking_state\<rparr> =
     Some (Return None, \<lparr>trace = done_prelude @ done_drain1 @ done_drain2, rt = done_tracker\<rparr>)"
  apply (subst SyncChanges.simps)
  apply (simp only: done_ctx done_iter1 option.case sum.case)
  apply (subst SyncChanges.simps)
  apply (simp only: done_ctx done_iter2 option.case sum.case)
  done

lemma done_begin:
  "FinalSync_begin done_env [] []
     \<lparr>trace = done_prelude @ done_drain1 @ done_drain2, rt = done_tracker\<rparr> =
   (Return (Some ErrDone),
    \<lparr>trace = done_prelude @ done_drain1 @ done_drain2 @ done_critical, rt = done_tracker\<rparr>)"
  by (simp add: FinalSync_begin_def FinalSync_tx_def Let_def emit_def done_critical_def
      done_env_def one_row_env_def quiet_env_def)

lemma done_run:
  "FinalSync done_env tracking_state =
     Some (Return (Some ErrDone),
       \<lparr>trace = done_prelude @ done_drain1 @ done_drain2 @ done_critical, rt = done_tracker\<rparr>)"
proof -
  have p: "sequence_names done_env tr = Inr []" "exec done_env tr Src q [] = Inr 0" for tr q
    by (simp_all add: done_env_def one_row_env_def quiet_env_def batch_size_def)
  have s: "emit (Exec Src ''set lock_timeout = 3000'' [] (Inr 0))
            (emit (Exec Src ''set idle_in_transaction_session_timeout = 1000'' [] (Inr 0))
              (emit (ReadSequenceNames (Inr [])) tracking_state))
           = \<lparr>trace = done_prelude, rt = rt tracking_state\<rparr>"
    by (simp add: emit_def tracking_state_def done_prelude_def)
  show ?thesis
    by (simp add: FinalSync_def Let_def p s done_sync done_begin)
qed

theorem FinalSync_state_read_witness:
  "FinalSync done_env tracking_state =
     Some (Return (Some ErrDone),
       \<lparr>trace = done_prelude @ done_drain1 @ done_drain2 @ done_critical, rt = done_tracker\<rparr>)
   \<and> ReadState (Inr ''use_next_db'') \<in> set (done_prelude @ done_drain1 @ done_drain2 @ done_critical)
   \<and> (\<exists>pre. done_prelude @ done_drain1 @ done_drain2 @ done_critical =
          pre @ [ReadState (Inr ''use_next_db''), RollbackTx Dst, RollbackTx Src])"
proof -
  let ?tr = "done_prelude @ done_drain1 @ done_drain2 @ done_critical"
  have m: "ReadState (Inr ''use_next_db'') \<in> set ?tr" by (simp add: done_critical_def)
  from FinalSync_state_read[OF done_run] obtain evs where
    evs: "trace \<lparr>trace = ?tr, rt = done_tracker\<rparr> = trace tracking_state @ evs"
      "\<forall>stat. ReadState (Inr stat) \<in> set evs \<longrightarrow>
       (\<exists>pre post. evs = pre @ ReadState (Inr stat) # post
          \<and> (\<forall>ev\<in>set pre. \<forall>s. ev \<noteq> ReadState s) \<and> (\<forall>ev\<in>set post. \<forall>s. ev \<noteq> ReadState s)
          \<and> (stat = ''use_next_db'' \<longrightarrow>
                Return (Some ErrDone) = Return (Some ErrDone) \<and> post = [RollbackTx Dst, RollbackTx Src])
          \<and> (stat = ''idle'' \<longrightarrow>
                Return (Some ErrDone) = Return (Some (Msg ''not running''))
                \<and> post = [RollbackTx Dst, RollbackTx Src])
          \<and> (stat \<noteq> ''use_next_db'' \<and> stat \<noteq> ''idle'' \<longrightarrow>
                (\<exists>rows rest. post = ReadChangeLog change_log_query rows # rest)))" by blast
  have e: "evs = ?tr" using evs(1) by (simp add: tracking_state_def)
  with m evs(2) obtain pre post where
    "?tr = pre @ ReadState (Inr ''use_next_db'') # post" "post = [RollbackTx Dst, RollbackTx Src]"
    by blast
  then have "\<exists>pre. ?tr = pre @ [ReadState (Inr ''use_next_db''), RollbackTx Dst, RollbackTx Src]"
    by blast
  with done_run m show ?thesis by blast
qed

text \<open>
  Claim C6 as stated fails: the switchover state reads \<open>use_next_db\<close> and one change is
  still in the change log. \<^verbatim>\<open>FinalSync\<close> returns the sentinel, but its catch-up drain
  has inserted the row into the destination and committed, and has deleted the
  change-log row from the source.
\<close>

theorem FinalSync_done_after_catch_up:
  "FinalSync done_env tracking_state =
     Some (Return (Some ErrDone),
       \<lparr>trace = done_prelude @ done_drain1 @ done_drain2 @ done_critical, rt = done_tracker\<rparr>)
   \<and> switchover_state done_env (done_prelude @ done_drain1 @ done_drain2
        @ [BeginTx Src DefaultOptions None, BeginTx Dst DefaultOptions None, AdvisoryLock None])
      = Inr ''use_next_db''
   \<and> Exec Dst ''insert a'' [JSONArray [''{}'']] (Inr 1) \<in> set done_drain1
   \<and> CommitTx Dst None \<in> set done_drain1
   \<and> Exec Src delete_change_log_query [IntArray [1]] (Inr 1) \<in> set done_drain1"
proof -
  have s: "switchover_state done_env (done_prelude @ done_drain1 @ done_drain2
        @ [BeginTx Src DefaultOptions None, BeginTx Dst DefaultOptions None, AdvisoryLock None])
      = Inr ''use_next_db''"
    by (simp add: done_env_def)
  have m: "Exec Dst ''insert a'' [JSONArray [''{}'']] (Inr 1) \<in> set done_drain1"
    "CommitTx Dst None \<in> set done_drain1"
    "Exec Src delete_change_log_query [IntArray [1]] (Inr 1) \<in> set done_drain1"
    by (simp_all add: done_drain1_def)
  from done_run s m show ?thesis by (intro conjI)
qed

end
